theory Spec2Isabelle
  imports Complex_Main "HOL-Library.AList" "HOL-Library.Sublist"
begin

section \<open>Constants of \<^verbatim>\<open>terabox.py\<close>\<close>

definition VALID_DOMAINS :: "string list" where
  "VALID_DOMAINS =
     [''terabox.com'', ''nephobox.com'', ''4funbox.com'', ''mirrobox.com'',
      ''momerybox.com'', ''teraboxapp.com'', ''1024tera.com'',
      ''terabox.app'', ''gibibox.com'', ''goaibox.com'', ''terasharelink.com'',
      ''teraboxlink.com'', ''terafileshare.com'']"

definition DEFAULT_SPLIT_SIZE :: nat where
  "DEFAULT_SPLIT_SIZE = 2 * 1024 ^ 3"

definition VIP_SPLIT_SIZE :: nat where
  "VIP_SPLIT_SIZE = 4 * 1024 ^ 3"

definition TOKEN_EXPIRY_HOURS :: nat where
  "TOKEN_EXPIRY_HOURS = 12"

text \<open>
  Exceptions of the source are values. Only the exception classes that the modelled
  functions can raise are listed; \<open>ExternalError\<close> stands for any \<^verbatim>\<open>Exception\<close> raised
  by an external collaborator (the messaging client, the operating system, a subprocess
  launch).
\<close>

datatype error =
    TypeError
  | ValueError
  | ZeroDivisionError
  | UnboundLocalError
  | IndexError
  | OSError
  | ExternalError

section \<open>The token store\<close>

text \<open>
  The MongoDB collection \<^verbatim>\<open>user_requests\<close> is a list of documents in insertion order; a
  document is an ordered list of fields. A field value is \<^verbatim>\<open>null\<close>, an integer, a
  string or a timestamp. Timestamps (\<^verbatim>\<open>datetime\<close>) are natural numbers counting
  microseconds from \<^verbatim>\<open>datetime.min\<close>, so \<^verbatim>\<open>datetime.min\<close> is \<open>0\<close>. The clock
  (\<^verbatim>\<open>datetime.now()\<close>) and the fresh token (\<^verbatim>\<open>str(uuid.uuid4())\<close>) are arguments of the
  functions that read them. The store keeps a timestamp in whole milliseconds: the
  driver drops the microseconds below a millisecond when it writes a \<^verbatim>\<open>datetime\<close>. The
  document's \<^verbatim>\<open>_id\<close>, the upper end \<^verbatim>\<open>datetime.max\<close> of the clock and failures of the
  database connection are outside the model.
\<close>

datatype bson = BNull | BInt int | BStr string | BTime nat

type_synonym doc = "(string \<times> bson) list"

type_synonym collection = "doc list"

definition datetime_min :: nat where
  "datetime_min = 0"

definition timedelta_hours :: "nat \<Rightarrow> nat" where
  "timedelta_hours h = h * 3600000000"

text \<open>A \<^verbatim>\<open>datetime\<close> as the store keeps it: rounded down to a whole millisecond.\<close>

definition bson_datetime :: "nat \<Rightarrow> nat" where
  "bson_datetime t = t div 1000 * 1000"

text \<open>\<^verbatim>\<open>dict.get(key)\<close> on a fetched document: \<open>None\<close> is a missing key.\<close>

definition get_field :: "doc \<Rightarrow> string \<Rightarrow> bson option" where
  "get_field d k = map_of d k"

text \<open>A query document of equality conditions matches when every field is present and equal.\<close>

definition matches :: "doc \<Rightarrow> doc \<Rightarrow> bool" where
  "matches flt d = list_all (\<lambda>(k, v). get_field d k = Some v) flt"

text \<open>The \<^verbatim>\<open>$set\<close> operator: each field is overwritten in place, or appended when absent.\<close>

fun set_fields :: "doc \<Rightarrow> doc \<Rightarrow> doc" where
  "set_fields [] d = d"
| "set_fields ((k, v) # kvs) d = set_fields kvs (AList.update k v d)"

text \<open>
  \<^verbatim>\<open>update_one(filter, {"$set": upd})\<close> without upsert: the first matching document in
  the collection is updated. The result is the new collection with \<^verbatim>\<open>matched_count\<close> and
  \<^verbatim>\<open>modified_count\<close>; a matched document that already holds the values is not counted as
  modified.
\<close>

fun update_first :: "doc \<Rightarrow> doc \<Rightarrow> collection \<Rightarrow> collection \<times> nat \<times> nat" where
  "update_first flt upd [] = ([], 0, 0)"
| "update_first flt upd (d # ds) =
     (if matches flt d
      then (set_fields upd d # ds, 1, if set_fields upd d = d then 0 else 1)
      else (case update_first flt upd ds of (ds', m, n) \<Rightarrow> (d # ds', m, n)))"

text \<open>
  \<^verbatim>\<open>update_one(filter, {"$set": upd}, upsert=upsert)\<close>. With upsert and no match, a
  document made of the filter's fields with the update applied is inserted.
\<close>

definition update_one :: "doc \<Rightarrow> doc \<Rightarrow> bool \<Rightarrow> collection \<Rightarrow> collection \<times> nat" where
  "update_one flt upd upsert coll =
     (case update_first flt upd coll of
        (coll', m, n) \<Rightarrow>
          if m = 0 \<and> upsert then (coll @ [set_fields upd flt], 0) else (coll', n))"

definition find_one :: "doc \<Rightarrow> collection \<Rightarrow> doc option" where
  "find_one flt coll = List.find (matches flt) coll"

text \<open>
  \<^verbatim>\<open>generate_uuid(user_id)\<close>; \<open>token\<close> is the value of \<^verbatim>\<open>str(uuid.uuid4())\<close>. The new
  collection and the returned token.
\<close>

definition generate_uuid :: "string \<Rightarrow> int \<Rightarrow> collection \<Rightarrow> collection \<times> string" where
  "generate_uuid token user_id coll =
     (fst (update_one [(''user_id'', BInt user_id)]
             [(''token'', BStr token), (''token_status'', BStr ''inactive''),
              (''token_expiry'', BNull)]
             True coll),
      token)"

text \<open>
  \<^verbatim>\<open>activate_token(user_id, token)\<close> at clock value \<open>now\<close>. The expiry handed to the
  store is \<^verbatim>\<open>datetime.now() + timedelta(hours=TOKEN_EXPIRY_HOURS)\<close>; the store keeps it in
  whole milliseconds.
\<close>

definition activate_token :: "nat \<Rightarrow> int \<Rightarrow> string \<Rightarrow> collection \<Rightarrow> collection \<times> bool" where
  "activate_token now user_id token coll =
     (case update_one [(''user_id'', BInt user_id), (''token'', BStr token)]
             [(''token_status'', BStr ''active''),
              (''token_expiry'', BTime (bson_datetime (now + timedelta_hours TOKEN_EXPIRY_HOURS)))]
             False coll of
        (coll', modified_count) \<Rightarrow> (coll', modified_count > 0))"

text \<open>
  \<^verbatim>\<open>has_valid_token(user_id)\<close> at clock value \<open>now\<close>. The comparison
  \<^verbatim>\<open>datetime.now() < x\<close> raises \<^verbatim>\<open>TypeError\<close> when \<open>x\<close> is not a timestamp; a missing
  \<^verbatim>\<open>token_expiry\<close> key reads as \<^verbatim>\<open>datetime.min\<close>.
\<close>

definition has_valid_token :: "nat \<Rightarrow> int \<Rightarrow> collection \<Rightarrow> error + bool" where
  "has_valid_token now user_id coll =
     (case find_one [(''user_id'', BInt user_id)] coll of
        None \<Rightarrow> Inr False
      | Some user_data \<Rightarrow>
          if user_data \<noteq> [] \<and> get_field user_data ''token_status'' = Some (BStr ''active'')
          then (case get_field user_data ''token_expiry'' of
                  None \<Rightarrow> Inr (now < datetime_min)
                | Some (BTime expiry) \<Rightarrow> Inr (now < expiry)
                | Some _ \<Rightarrow> Inl TypeError)
          else Inr False)"


text \<open>
  The token operations as steps on the collection: \<^verbatim>\<open>generate_uuid\<close> and
  \<^verbatim>\<open>activate_token\<close> write through \<^verbatim>\<open>update_one\<close>; \<^verbatim>\<open>has_valid_token\<close> only calls
  \<^verbatim>\<open>find_one\<close>, so it leaves the collection as it is.
\<close>

datatype token_op = Issue string int | Activate nat int string | Validate nat int

fun token_step :: "collection \<Rightarrow> token_op \<Rightarrow> collection" where
  "token_step coll (Issue token user_id) = fst (generate_uuid token user_id coll)"
| "token_step coll (Activate now user_id token) = fst (activate_token now user_id token coll)"
| "token_step coll (Validate now user_id) = coll"

definition run_ops :: "collection \<Rightarrow> token_op list \<Rightarrow> collection" where
  "run_ops coll ops = foldl token_step coll ops"

text \<open>
  Well-formedness of a collection: at most one document per user identity, and a
  document whose status is \<^verbatim>\<open>active\<close> holds a timestamp as its expiry.
\<close>

definition is_time :: "bson option \<Rightarrow> bool" where
  "is_time v = (case v of Some (BTime expiry) \<Rightarrow> True | _ \<Rightarrow> False)"

definition expiry_ok :: "doc \<Rightarrow> bool" where
  "expiry_ok d =
     (get_field d ''token_status'' \<noteq> Some (BStr ''active'') \<or>
      is_time (get_field d ''token_expiry''))"

definition owners :: "collection \<Rightarrow> bson list" where
  "owners coll = List.map_filter (\<lambda>d. get_field d ''user_id'') coll"

definition store_inv :: "collection \<Rightarrow> bool" where
  "store_inv coll = (distinct (owners coll) \<and> list_all expiry_ok coll)"

subsection \<open>The start command\<close>

text \<open>
  \<^verbatim>\<open>start_handler\<close> up to the choice of the caption; \<open>command\<close> is
  \<^verbatim>\<open>message.command\<close> (the command name followed by its arguments). Sending the reply
  is outside the model. Python's \<^verbatim>\<open>and\<close> reads \<^verbatim>\<open>command[1]\<close> only when the list has
  more than one element.
\<close>

datatype caption = TokenActivated | InvalidToken | GenerateToken string | AlreadyActive

definition start_handler ::
    "nat \<Rightarrow> string \<Rightarrow> int \<Rightarrow> string list \<Rightarrow> collection \<Rightarrow> error + (collection \<times> caption)" where
  "start_handler now fresh user_id command coll =
     (if length command > 1 \<and> length (command ! 1) = 36
      then (let token = command ! 1
            in case activate_token now user_id token coll of
                 (coll', ok) \<Rightarrow> Inr (coll', if ok then TokenActivated else InvalidToken))
      else (case has_valid_token now user_id coll of
              Inl e \<Rightarrow> Inl e
            | Inr valid \<Rightarrow>
                if \<not> valid
                then (case generate_uuid fresh user_id coll of
                        (coll', token) \<Rightarrow> Inr (coll', GenerateToken token))
                else Inr (coll, AlreadyActive)))"

section \<open>The link validator\<close>

text \<open>
  \<^verbatim>\<open>urlparse(url).netloc\<close> of the Python standard library (\<^verbatim>\<open>urllib.parse.urlsplit\<close>, as
  of CPython 3.11), for strings of code points below 256: leading C0 control characters
  and spaces are stripped, tab, carriage return and line feed are removed, a scheme
  (a letter followed by letters, digits, \<^verbatim>\<open>+\<close>, \<^verbatim>\<open>-\<close>, \<^verbatim>\<open>.\<close> up to the first colon) is
  split off, and when the rest starts with \<^verbatim>\<open>//\<close> the network location runs to the
  first \<^verbatim>\<open>/\<close>, \<^verbatim>\<open>?\<close> or \<^verbatim>\<open>#\<close>. A network location with one square bracket but not the
  other raises \<^verbatim>\<open>ValueError\<close>. What the library does with a network location holding both
  brackets depends on its version (later versions validate the bracketed host), so that
  check is the parameter \<open>bracketed_ok\<close>. The library's NFKC check of the network
  location raises for no string of code points below 256.
\<close>

definition lstrip_c0 :: "string \<Rightarrow> string" where
  "lstrip_c0 url = dropWhile (\<lambda>c. (of_char c :: nat) \<le> 32) url"

definition remove_unsafe :: "string \<Rightarrow> string" where
  "remove_unsafe url = filter (\<lambda>c. (of_char c :: nat) \<notin> {9, 10, 13}) url"

definition is_ascii_alpha :: "char \<Rightarrow> bool" where
  "is_ascii_alpha c =
     (let n = (of_char c :: nat) in (65 \<le> n \<and> n \<le> 90) \<or> (97 \<le> n \<and> n \<le> 122))"

definition scheme_char :: "char \<Rightarrow> bool" where
  "scheme_char c =
     (let n = (of_char c :: nat)
      in is_ascii_alpha c \<or> (48 \<le> n \<and> n \<le> 57) \<or> c \<in> set ''+-.'')"

definition strip_scheme :: "string \<Rightarrow> string" where
  "strip_scheme url =
     (let pre = takeWhile (\<lambda>c. c \<noteq> CHR '':'') url
      in if length pre < length url \<and> pre \<noteq> [] \<and> is_ascii_alpha (hd url) \<and>
            list_all scheme_char pre
         then drop (length pre + 1) url
         else url)"

definition splitnetloc :: "string \<Rightarrow> string" where
  "splitnetloc url = takeWhile (\<lambda>c. c \<notin> set ''/?#'') (drop 2 url)"

definition urlparse_netloc :: "(string \<Rightarrow> bool) \<Rightarrow> string \<Rightarrow> error + string" where
  "urlparse_netloc bracketed_ok url0 =
     (let url = strip_scheme (remove_unsafe (lstrip_c0 url0))
      in if take 2 url = ''//''
         then (let netloc = splitnetloc url
               in if (CHR ''['' \<in> set netloc \<and> CHR '']'' \<notin> set netloc) \<or>
                     (CHR '']'' \<in> set netloc \<and> CHR ''['' \<notin> set netloc)
                  then Inl ValueError
                  else if CHR ''['' \<in> set netloc \<and> CHR '']'' \<in> set netloc \<and>
                          \<not> bracketed_ok netloc
                  then Inl ValueError
                  else Inr netloc)
         else Inr [])"

text \<open>\<^verbatim>\<open>str.endswith\<close>.\<close>

definition endswith :: "string \<Rightarrow> string \<Rightarrow> bool" where
  "endswith s suf = (length suf \<le> length s \<and> drop (length s - length suf) s = suf)"

text \<open>\<^verbatim>\<open>is_valid_url(url)\<close>: an exception of \<^verbatim>\<open>urlparse\<close> is not caught.\<close>

definition is_valid_url :: "(string \<Rightarrow> bool) \<Rightarrow> string \<Rightarrow> error + bool" where
  "is_valid_url bracketed_ok url =
     (case urlparse_netloc bracketed_ok url of
        Inl e \<Rightarrow> Inl e
      | Inr netloc \<Rightarrow> Inr (list_ex (\<lambda>domain. endswith netloc domain) VALID_DOMAINS))"


section \<open>The upload pipeline\<close>

text \<open>
  The world a pipeline run acts on is the local disk (a map from paths to file sizes) and
  the trace of the calls made to the outside, in order. The outcome of every external
  call is read from an environment \<open>env\<close>: the configuration, the downloaded files, the
  media probe, the stream-copy tool, the messaging client. Durations are Python floats;
  their type is the parameter \<open>'f\<close>, and the two float operations the code uses
  (\<^verbatim>\<open>total_duration / parts\<close> and \<^verbatim>\<open>i * duration_per_part\<close>) are the fields \<open>fdiv\<close> and
  \<open>fmul\<close> of the environment. The disk is ideal: \<^verbatim>\<open>os.remove\<close> of a file that exists
  removes it. Thumbnail files and progress edits are outside the model, and so are
  exceptions that are not an \<^verbatim>\<open>Exception\<close> (task cancellation, interpreter exit).
\<close>

record 'f cmd =
  cmd_ss :: 'f
  cmd_input :: string
  cmd_t :: 'f
  cmd_output :: string

datatype 'f call =
    Ffmpeg "'f cmd"
  | SendVideo string
  | OsRemove string
  | DeleteStatus
  | DeleteOriginal
  | LogError error

text \<open>
  One run of the stream-copy tool: the launch raises, or the process runs and ends with
  an exit status, having written an output file of some size or none.
\<close>

datatype run = LaunchFailed | Exited int "nat option"

record 'f world =
  disk :: "string \<rightharpoonup> nat"
  calls :: "'f call list"

record 'f env =
  user_client :: bool
  files :: "string list"
  probe :: "string \<Rightarrow> error + 'f"
  fdiv :: "'f \<Rightarrow> nat \<Rightarrow> 'f"
  fmul :: "nat \<Rightarrow> 'f \<Rightarrow> 'f"
  ffmpeg :: "'f cmd \<Rightarrow> run"
  send_ok :: "string \<Rightarrow> bool"
  notify_ok :: "string \<Rightarrow> bool"
  delete_status_ok :: bool
  delete_original_ok :: bool

definition record_call :: "'f call \<Rightarrow> 'f world \<Rightarrow> 'f world" where
  "record_call c w = w\<lparr>calls := calls w @ [c]\<rparr>"

fun ffmpeg_cmds :: "'f call list \<Rightarrow> 'f cmd list" where
  "ffmpeg_cmds [] = []"
| "ffmpeg_cmds (Ffmpeg c # cs) = c # ffmpeg_cmds cs"
| "ffmpeg_cmds (_ # cs) = ffmpeg_cmds cs"

subsection \<open>Part names\<close>

text \<open>
  \<^verbatim>\<open>str.rfind\<close> of one character (\<open>-1\<close> when absent) and \<^verbatim>\<open>os.path.splitext\<close> of
  \<^verbatim>\<open>posixpath\<close>: the extension starts at the last dot of the last path component, unless
  only dots precede it there.
\<close>

definition rfind :: "char \<Rightarrow> string \<Rightarrow> int" where
  "rfind c s =
     (if c \<in> set s then int (length s) - 1 - int (length (takeWhile (\<lambda>x. x \<noteq> c) (rev s)))
      else - 1)"

definition splitext :: "string \<Rightarrow> string \<times> string" where
  "splitext p =
     (let sepIndex = rfind CHR ''/'' p; dotIndex = rfind CHR ''.'' p
      in if dotIndex > sepIndex \<and>
            list_ex (\<lambda>c. c \<noteq> CHR ''.'')
              (take (nat (dotIndex - (sepIndex + 1))) (drop (nat (sepIndex + 1)) p))
         then (take (nat dotIndex) p, drop (nat dotIndex) p)
         else (p, []))"

text \<open>The format \<^verbatim>\<open>{n:03d}\<close> of a natural number: decimal, padded with zeros to three digits.\<close>

definition digit_char :: "nat \<Rightarrow> char" where
  "digit_char d = char_of (48 + d)"

fun digits10 :: "nat \<Rightarrow> string" where
  "digits10 n = (if n < 10 then [digit_char n] else digits10 (n div 10) @ [digit_char (n mod 10)])"

definition fmt_03d :: "nat \<Rightarrow> string" where
  "fmt_03d n = replicate (3 - length (digits10 n)) CHR ''0'' @ digits10 n"

text \<open>Reading a decimal numeral back, to state which number a suffix shows.\<close>

definition read_digits :: "string \<Rightarrow> nat" where
  "read_digits s = foldl (\<lambda>a c. 10 * a + (of_char c - 48)) 0 s"

definition part_path :: "string \<Rightarrow> nat \<Rightarrow> string" where
  "part_path input_path i =
     fst (splitext input_path) @ ''.part'' @ fmt_03d (i + 1) @ snd (splitext input_path)"

subsection \<open>The number of parts\<close>

text \<open>
  \<^verbatim>\<open>math.ceil(file_size / DEFAULT_SPLIT_SIZE)\<close> divides two integers into a float. The
  divisor is a power of two, so the quotient is the double nearest to \<open>file_size\<close>
  (ties to even, 53 significant bits) scaled exactly, and \<^verbatim>\<open>math.ceil\<close> of it is exact.
\<close>

fun bit_length :: "nat \<Rightarrow> nat" where
  "bit_length n = (if n = 0 then 0 else Suc (bit_length (n div 2)))"

definition nearest_double :: "nat \<Rightarrow> nat" where
  "nearest_double n =
     (if n < 2 ^ 53 then n
      else (let e = bit_length n - 53; q = n div 2 ^ e; r = n mod 2 ^ e; h = 2 ^ (e - 1)
            in if r < h \<or> (r = h \<and> even q) then q * 2 ^ e else (q + 1) * 2 ^ e))"

definition parts_count :: "nat \<Rightarrow> nat" where
  "parts_count file_size =
     (nearest_double file_size + DEFAULT_SPLIT_SIZE - 1) div DEFAULT_SPLIT_SIZE"

subsection \<open>Splitting\<close>

definition part_cmd :: "'f env \<Rightarrow> string \<Rightarrow> 'f \<Rightarrow> nat \<Rightarrow> 'f cmd" where
  "part_cmd env input_path duration_per_part i =
     \<lparr>cmd_ss = fmul env i duration_per_part, cmd_input = input_path,
      cmd_t = duration_per_part, cmd_output = part_path input_path i\<rparr>"

text \<open>
  The loop \<^verbatim>\<open>for i in range(parts)\<close> of \<^verbatim>\<open>split_video\<close>, over the indices still to do.
  The exit status returned by \<^verbatim>\<open>proc.wait()\<close> is not read.
\<close>

fun split_parts ::
    "'f env \<Rightarrow> string \<Rightarrow> 'f \<Rightarrow> nat list \<Rightarrow> 'f world \<Rightarrow> string list \<Rightarrow>
     'f world \<times> (error + string list)" where
  "split_parts env input_path dpp [] w split_files = (w, Inr split_files)"
| "split_parts env input_path dpp (i # rest) w split_files =
     (let c = part_cmd env input_path dpp i; w1 = record_call (Ffmpeg c) w
      in case ffmpeg env c of
           LaunchFailed \<Rightarrow> (w1, Inl OSError)
         | Exited status written \<Rightarrow>
             split_parts env input_path dpp rest
               (case written of
                  None \<Rightarrow> w1
                | Some sz \<Rightarrow> w1\<lparr>disk := (disk w1)(cmd_output c \<mapsto> sz)\<rparr>)
               (split_files @ [cmd_output c]))"

text \<open>
  The body of the \<^verbatim>\<open>try\<close> of \<^verbatim>\<open>split_video\<close>. \<open>probe env input_path\<close> is the outcome of
  running the probe and of \<^verbatim>\<open>float(stdout.decode().strip())\<close>; \<^verbatim>\<open>os.path.getsize\<close> raises
  for a missing file; the division raises for zero parts.
\<close>

definition split_video_body ::
    "'f env \<Rightarrow> string \<Rightarrow> 'f world \<Rightarrow> 'f world \<times> (error + string list)" where
  "split_video_body env input_path w =
     (case probe env input_path of
        Inl e \<Rightarrow> (w, Inl e)
      | Inr total_duration \<Rightarrow>
          (case disk w input_path of
             None \<Rightarrow> (w, Inl OSError)
           | Some file_size \<Rightarrow>
               (let parts = parts_count file_size
                in if parts = 0 then (w, Inl ZeroDivisionError)
                   else split_parts env input_path (fdiv env total_duration parts)
                          [0..<parts] w [])))"

text \<open>\<^verbatim>\<open>split_video\<close>: the handler logs the exception and raises it again.\<close>

definition split_video ::
    "'f env \<Rightarrow> string \<Rightarrow> 'f world \<Rightarrow> 'f world \<times> (error + string list)" where
  "split_video env input_path w =
     (case split_video_body env input_path w of
        (w', Inl e) \<Rightarrow> (record_call (LogError e) w', Inl e)
      | (w', Inr split_files) \<Rightarrow> (w', Inr split_files))"

subsection \<open>Uploading and removing\<close>

text \<open>\<^verbatim>\<open>safe_remove\<close>: \<^verbatim>\<open>os.remove\<close> raises for a missing file; the handler logs it.\<close>

definition safe_remove :: "string \<Rightarrow> 'f world \<Rightarrow> 'f world" where
  "safe_remove path w =
     (let w1 = record_call (OsRemove path) w
      in case disk w1 path of
           None \<Rightarrow> record_call (LogError OSError) w1
         | Some sz \<Rightarrow> w1\<lparr>disk := (disk w1)(path := None)\<rparr>)"

text \<open>
  \<^verbatim>\<open>upload_file\<close>: a failure of the send (or of the copy to the requester) is caught and
  logged; the notice to the requester that follows is sent from the handler, and when it
  fails too that exception leaves the function.
\<close>

definition upload_file :: "'f env \<Rightarrow> string \<Rightarrow> 'f world \<Rightarrow> 'f world \<times> (error + unit)" where
  "upload_file env file_path w =
     (let w1 = record_call (SendVideo file_path) w
      in if send_ok env file_path then (w1, Inr ())
         else (let w2 = record_call (LogError ExternalError) w1
               in if notify_ok env file_path then (w2, Inr ()) else (w2, Inl ExternalError)))"

text \<open>The loop \<^verbatim>\<open>for part in split_files: await upload_file(...)\<close>.\<close>

fun upload_each :: "'f env \<Rightarrow> string list \<Rightarrow> 'f world \<Rightarrow> 'f world \<times> (error + unit)" where
  "upload_each env [] w = (w, Inr ())"
| "upload_each env (part # rest) w =
     (case upload_file env part w of
        (w1, Inl e) \<Rightarrow> (w1, Inl e)
      | (w1, Inr u) \<Rightarrow> upload_each env rest w1)"

text \<open>The loop \<^verbatim>\<open>for part in split_files: safe_remove(part)\<close>.\<close>

fun remove_each :: "string list \<Rightarrow> 'f world \<Rightarrow> 'f world" where
  "remove_each [] w = w"
| "remove_each (part # rest) w = remove_each rest (safe_remove part w)"

text \<open>
  \<^verbatim>\<open>split_and_upload\<close>. The name \<^verbatim>\<open>split_files\<close> is bound by the first statement of the
  \<^verbatim>\<open>try\<close>; when \<^verbatim>\<open>split_video\<close> raises it is unbound, and the loop of the \<^verbatim>\<open>finally\<close>
  block raises \<^verbatim>\<open>UnboundLocalError\<close>, which replaces the exception in flight.
\<close>

definition split_and_upload ::
    "'f env \<Rightarrow> string \<Rightarrow> 'f world \<Rightarrow> 'f world \<times> (error + unit)" where
  "split_and_upload env file_path w =
     (case split_video env file_path w of
        (w1, Inl e) \<Rightarrow> (w1, Inl UnboundLocalError)
      | (w1, Inr split_files) \<Rightarrow>
          (case upload_each env split_files w1 of
             (w2, r) \<Rightarrow> (remove_each split_files w2, r)))"

definition direct_upload ::
    "'f env \<Rightarrow> string \<Rightarrow> 'f world \<Rightarrow> 'f world \<times> (error + unit)" where
  "direct_upload env file_path w =
     (case upload_file env file_path w of
        (w1, r) \<Rightarrow> (safe_remove file_path w1, r))"

definition split_size :: "bool \<Rightarrow> nat" where
  "split_size elevated = (if elevated then VIP_SPLIT_SIZE else DEFAULT_SPLIT_SIZE)"

text \<open>
  \<^verbatim>\<open>handle_upload\<close>: \<^verbatim>\<open>download.files[0]\<close> raises for an empty list, \<^verbatim>\<open>os.path.getsize\<close>
  for a missing file.
\<close>

definition handle_upload :: "'f env \<Rightarrow> 'f world \<Rightarrow> 'f world \<times> (error + unit)" where
  "handle_upload env w =
     (case files env of
        [] \<Rightarrow> (w, Inl IndexError)
      | file_path # _ \<Rightarrow>
          (case disk w file_path of
             None \<Rightarrow> (w, Inl OSError)
           | Some file_size \<Rightarrow>
               if file_size > split_size (user_client env)
               then split_and_upload env file_path w
               else direct_upload env file_path w))"

subsection \<open>Final cleanup\<close>

text \<open>The body of the \<^verbatim>\<open>try\<close> of \<^verbatim>\<open>cleanup\<close>: three statements in sequence.\<close>

definition cleanup_body :: "'f env \<Rightarrow> 'f world \<Rightarrow> 'f world \<times> (error + unit)" where
  "cleanup_body env w =
     (let w1 = record_call DeleteStatus w
      in if \<not> delete_status_ok env then (w1, Inl ExternalError)
         else (let w2 = record_call DeleteOriginal w1
               in if \<not> delete_original_ok env then (w2, Inl ExternalError)
                  else (case files env of
                          [] \<Rightarrow> (w2, Inl IndexError)
                        | file_path # _ \<Rightarrow>
                            (case disk w2 file_path of
                               None \<Rightarrow> (w2, Inr ())
                             | Some sz \<Rightarrow>
                                 (record_call (OsRemove file_path)
                                    (w2\<lparr>disk := (disk w2)(file_path := None)\<rparr>),
                                  Inr ())))))"

text \<open>\<^verbatim>\<open>cleanup\<close>: the one handler around the three statements logs the exception.\<close>

definition cleanup :: "'f env \<Rightarrow> 'f world \<Rightarrow> 'f world \<times> (error + unit)" where
  "cleanup env w =
     (case cleanup_body env w of
        (w', Inl e) \<Rightarrow> (record_call (LogError e) w', Inr ())
      | (w', Inr u) \<Rightarrow> (w', Inr u))"


subsection \<open>A concrete run\<close>

text \<open>
  The inputs of the examples below: a downloaded video of 5 GB (\<open>5 * 1024 ^ 3\<close> bytes)
  that lasts 3000 seconds, with floats read as real numbers, a stream-copy tool that
  writes every part, and a messaging client that accepts every call.
\<close>

definition example_env :: "real env" where
  "example_env =
     \<lparr>user_client = False, files = [''/downloads/video.mp4''],
      probe = (\<lambda>_. Inr 3000), fdiv = (\<lambda>x n. x / real n), fmul = (\<lambda>i x. real i * x),
      ffmpeg = (\<lambda>_. Exited 0 (Some 1789569707)),
      send_ok = (\<lambda>_. True), notify_ok = (\<lambda>_. True),
      delete_status_ok = True, delete_original_ok = True\<rparr>"

definition example_world :: "real world" where
  "example_world = \<lparr>disk = [''/downloads/video.mp4'' \<mapsto> 5368709120], calls = []\<rparr>"

section \<open>Properties of the token store\<close>

subsection \<open>Fields and updates\<close>

lemma get_field_update:
  "get_field (AList.update k v d) k' = (if k' = k then Some v else get_field d k')"
  by (simp add: get_field_def update_conv')

lemma update_first_no_match:
  "\<forall>d\<in>set coll. \<not> matches flt d \<Longrightarrow> update_first flt upd coll = (coll, 0, 0)"
  by (induction coll) auto

lemma update_first_match:
  "\<exists>d\<in>set coll. matches flt d \<Longrightarrow>
   \<exists>pre d post. coll = pre @ d # post \<and> (\<forall>x\<in>set pre. \<not> matches flt x) \<and> matches flt d \<and>
     update_first flt upd coll =
       (pre @ set_fields upd d # post, 1, if set_fields upd d = d then 0 else 1)"
proof (induction coll)
  case Nil
  then show ?case by simp
next
  case (Cons a coll)
  show ?case
  proof (cases "matches flt a")
    case True
    then have "a # coll = [] @ a # coll \<and> (\<forall>x\<in>set []. \<not> matches flt x) \<and> matches flt a \<and>
      update_first flt upd (a # coll) = ([] @ set_fields upd a # coll, 1, if set_fields upd a = a then 0 else 1)"
      by simp
    then show ?thesis by blast
  next
    case False
    with Cons.prems have "\<exists>d\<in>set coll. matches flt d" by auto
    from Cons.IH [OF this] obtain pre d post where
      h: "coll = pre @ d # post" "\<forall>x\<in>set pre. \<not> matches flt x" "matches flt d"
         "update_first flt upd coll = (pre @ set_fields upd d # post, 1, if set_fields upd d = d then 0 else 1)"
      by blast
    with False have "a # coll = (a # pre) @ d # post \<and> (\<forall>x\<in>set (a # pre). \<not> matches flt x) \<and> matches flt d \<and>
      update_first flt upd (a # coll) = ((a # pre) @ set_fields upd d # post, 1, if set_fields upd d = d then 0 else 1)"
      by simp
    then show ?thesis by blast
  qed
qed

lemma matches_activate:
  "matches [(''user_id'', BInt uid), (''token'', BStr tok)] d \<longleftrightarrow>
     get_field d ''user_id'' = Some (BInt uid) \<and> get_field d ''token'' = Some (BStr tok)"
  by (simp add: matches_def)

lemma get_field_set_fields_other:
  "k \<notin> fst ` set upd \<Longrightarrow> get_field (set_fields upd d) k = get_field d k"
  by (induction upd d rule: set_fields.induct) (auto simp: get_field_update)

lemma owners_append: "owners (xs @ ys) = owners xs @ owners ys"
  by (simp add: owners_def map_filter_def)

lemma owners_Cons:
  "owners (d # ds) = (case get_field d ''user_id'' of None \<Rightarrow> owners ds | Some u \<Rightarrow> u # owners ds)"
  by (simp add: owners_def map_filter_def split: option.splits)

lemma owners_update_first:
  "''user_id'' \<notin> fst ` set upd \<Longrightarrow> owners (fst (update_first flt upd coll)) = owners coll"
  by (induction coll) (auto simp: owners_Cons get_field_set_fields_other split: prod.splits option.splits)

lemma list_all_update_first:
  "list_all P coll \<Longrightarrow> (\<And>d. matches flt d \<Longrightarrow> P (set_fields upd d)) \<Longrightarrow>
   list_all P (fst (update_first flt upd coll))"
  by (induction coll) (auto split: prod.splits)

lemma update_first_matched_zero:
  "fst (snd (update_first flt upd coll)) = 0 \<longleftrightarrow> (\<forall>d\<in>set coll. \<not> matches flt d)"
  by (induction coll) (auto split: prod.splits)

lemma matches_user:
  "matches [(''user_id'', BInt uid)] d \<longleftrightarrow> get_field d ''user_id'' = Some (BInt uid)"
  by (simp add: matches_def)

lemma owners_mem: "u \<in> set (owners coll) \<longleftrightarrow> (\<exists>d\<in>set coll. get_field d ''user_id'' = Some u)"
  by (induction coll) (auto simp: owners_Cons owners_def split: option.splits)

lemma expiry_ok_issued:
  "expiry_ok (set_fields [(''token'', BStr token), (''token_status'', BStr ''inactive''),
              (''token_expiry'', BNull)] d)"
  by (simp add: expiry_ok_def get_field_update)

lemma expiry_ok_activated:
  "expiry_ok (set_fields [(''token_status'', BStr ''active''), (''token_expiry'', BTime t)] d)"
  by (simp add: expiry_ok_def get_field_update is_time_def)

lemma store_inv_generate:
  assumes "store_inv coll"
  shows "store_inv (fst (generate_uuid token user_id coll))"
proof -
  let ?flt = "[(''user_id'', BInt user_id)]"
  let ?upd = "[(''token'', BStr token), (''token_status'', BStr ''inactive''), (''token_expiry'', BNull)]"
  obtain coll' m n where u: "update_first ?flt ?upd coll = (coll', m, n)"
    by (cases "update_first ?flt ?upd coll") auto
  have o: "owners coll' = owners coll"
    using owners_update_first [of ?upd ?flt coll] u by simp
  have a: "list_all expiry_ok coll'"
    using list_all_update_first [of expiry_ok coll ?flt ?upd] assms u
    by (simp add: store_inv_def expiry_ok_issued del: set_fields.simps)
  show ?thesis
  proof (cases "m = 0")
    case True
    with update_first_matched_zero [of ?flt ?upd coll] u
    have "\<forall>d\<in>set coll. get_field d ''user_id'' \<noteq> Some (BInt user_id)"
      by (simp add: matches_user)
    then have "BInt user_id \<notin> set (owners coll)"
      by (simp add: owners_mem)
    moreover have "owners [set_fields ?upd ?flt] = [BInt user_id]"
      by (simp add: owners_Cons get_field_update get_field_def owners_def)
    moreover have "expiry_ok (set_fields ?upd ?flt)"
      by (rule expiry_ok_issued)
    ultimately show ?thesis
      using assms u True
      by (simp add: generate_uuid_def update_one_def store_inv_def owners_append del: set_fields.simps)
  next
    case False
    with u o a assms show ?thesis
      by (simp add: generate_uuid_def update_one_def store_inv_def)
  qed
qed

lemma store_inv_activate:
  assumes "store_inv coll"
  shows "store_inv (fst (activate_token now user_id token coll))"
proof -
  let ?flt = "[(''user_id'', BInt user_id), (''token'', BStr token)]"
  let ?upd = "[(''token_status'', BStr ''active''),
              (''token_expiry'', BTime (bson_datetime (now + timedelta_hours TOKEN_EXPIRY_HOURS)))]"
  obtain coll' m n where u: "update_first ?flt ?upd coll = (coll', m, n)"
    by (cases "update_first ?flt ?upd coll") auto
  have o: "owners coll' = owners coll"
    using owners_update_first [of ?upd ?flt coll] u by simp
  have a: "list_all expiry_ok coll'"
    using list_all_update_first [of expiry_ok coll ?flt ?upd] assms u
    by (simp add: store_inv_def expiry_ok_activated del: set_fields.simps)
  from u o a assms show ?thesis
    by (simp add: activate_token_def update_one_def store_inv_def)
qed

lemma store_inv_step: "store_inv coll \<Longrightarrow> store_inv (token_step coll op)"
  by (cases op) (simp_all add: store_inv_generate store_inv_activate)

lemma store_inv_run: "store_inv coll \<Longrightarrow> store_inv (run_ops coll ops)"
  unfolding run_ops_def by (induction ops arbitrary: coll) (simp_all add: store_inv_step)

lemma store_inv_empty: "store_inv []"
  by (simp add: store_inv_def owners_def map_filter_def)

lemma owners_unique:
  "distinct (owners coll) \<Longrightarrow> x \<in> set coll \<Longrightarrow> y \<in> set coll \<Longrightarrow>
   get_field x ''user_id'' = Some u \<Longrightarrow> get_field y ''user_id'' = Some u \<Longrightarrow> x = y"
  by (induction coll) (auto simp: owners_Cons owners_mem split: option.splits)

lemma find_one_user:
  assumes "distinct (owners coll)"
  shows "find_one [(''user_id'', BInt uid)] coll = Some d \<longleftrightarrow>
         d \<in> set coll \<and> get_field d ''user_id'' = Some (BInt uid)"
proof
  assume "find_one [(''user_id'', BInt uid)] coll = Some d"
  then show "d \<in> set coll \<and> get_field d ''user_id'' = Some (BInt uid)"
    by (auto simp: find_one_def find_Some_iff matches_user)
next
  assume h: "d \<in> set coll \<and> get_field d ''user_id'' = Some (BInt uid)"
  then have "find_one [(''user_id'', BInt uid)] coll \<noteq> None"
    by (auto simp: find_one_def find_None_iff matches_user)
  then obtain d' where f: "find_one [(''user_id'', BInt uid)] coll = Some d'" by auto
  then have "d' \<in> set coll \<and> get_field d' ''user_id'' = Some (BInt uid)"
    by (auto simp: find_one_def find_Some_iff matches_user)
  with h assms have "d' = d" by (blast intro: owners_unique)
  with f show "find_one [(''user_id'', BInt uid)] coll = Some d" by simp
qed

lemma find_one_user_None:
  "find_one [(''user_id'', BInt uid)] coll = None \<longleftrightarrow>
     (\<forall>d\<in>set coll. get_field d ''user_id'' \<noteq> Some (BInt uid))"
  by (auto simp: find_one_def find_None_iff matches_user)

lemma has_valid_token_inv:
  assumes "store_inv coll"
  shows "has_valid_token now uid coll =
     Inr (\<exists>d\<in>set coll. get_field d ''user_id'' = Some (BInt uid) \<and>
            get_field d ''token_status'' = Some (BStr ''active'') \<and>
            (\<exists>t. get_field d ''token_expiry'' = Some (BTime t) \<and> now < t))"
proof (cases "find_one [(''user_id'', BInt uid)] coll")
  case None
  then have "\<forall>d\<in>set coll. get_field d ''user_id'' \<noteq> Some (BInt uid)"
    by (simp add: find_one_user_None)
  with None show ?thesis
    by (simp add: has_valid_token_def)
next
  case (Some d)
  from assms have dist: "distinct (owners coll)" by (simp add: store_inv_def)
  from Some dist have d: "d \<in> set coll" "get_field d ''user_id'' = Some (BInt uid)"
    by (simp_all add: find_one_user)
  from d(1) assms have ok: "expiry_ok d"
    by (simp add: store_inv_def list_all_iff)
  have only: "\<And>d'. d' \<in> set coll \<Longrightarrow> get_field d' ''user_id'' = Some (BInt uid) \<Longrightarrow> d' = d"
    using dist d by (blast intro: owners_unique)
  from d(2) have ne: "d \<noteq> []" by (auto simp: get_field_def)
  show ?thesis
  proof (cases "get_field d ''token_status'' = Some (BStr ''active'')")
    case True
    with ok obtain t where t: "get_field d ''token_expiry'' = Some (BTime t)"
      by (auto simp: expiry_ok_def is_time_def split: option.splits bson.splits)
    have "has_valid_token now uid coll = Inr (now < t)"
      using Some True t ne by (simp add: has_valid_token_def)
    moreover have "(\<exists>d\<in>set coll. get_field d ''user_id'' = Some (BInt uid) \<and>
            get_field d ''token_status'' = Some (BStr ''active'') \<and>
            (\<exists>t. get_field d ''token_expiry'' = Some (BTime t) \<and> now < t)) \<longleftrightarrow> now < t"
    proof
      assume "\<exists>d\<in>set coll. get_field d ''user_id'' = Some (BInt uid) \<and>
            get_field d ''token_status'' = Some (BStr ''active'') \<and>
            (\<exists>t. get_field d ''token_expiry'' = Some (BTime t) \<and> now < t)"
      then obtain d' t' where d': "d' \<in> set coll" "get_field d' ''user_id'' = Some (BInt uid)"
        "get_field d' ''token_expiry'' = Some (BTime t')" "now < t'"
        by blast
      from only [OF d'(1,2)] d'(3) t have "t' = t" by simp
      with d'(4) show "now < t" by simp
    next
      assume "now < t"
      with d True t show "\<exists>d\<in>set coll. get_field d ''user_id'' = Some (BInt uid) \<and>
            get_field d ''token_status'' = Some (BStr ''active'') \<and>
            (\<exists>t. get_field d ''token_expiry'' = Some (BTime t) \<and> now < t)"
        by blast
    qed
    ultimately show ?thesis by simp
  next
    case False
    have "has_valid_token now uid coll = Inr False"
      using Some False by (simp add: has_valid_token_def)
    moreover have "\<not> (\<exists>d\<in>set coll. get_field d ''user_id'' = Some (BInt uid) \<and>
            get_field d ''token_status'' = Some (BStr ''active'') \<and>
            (\<exists>t. get_field d ''token_expiry'' = Some (BTime t) \<and> now < t))"
    proof
      assume "\<exists>d\<in>set coll. get_field d ''user_id'' = Some (BInt uid) \<and>
            get_field d ''token_status'' = Some (BStr ''active'') \<and>
            (\<exists>t. get_field d ''token_expiry'' = Some (BTime t) \<and> now < t)"
      then obtain d' where d': "d' \<in> set coll" "get_field d' ''user_id'' = Some (BInt uid)"
        "get_field d' ''token_status'' = Some (BStr ''active'')"
        by blast
      from only [OF d'(1,2)] d'(3) False show False by simp
    qed
    ultimately show ?thesis by simp
  qed
qed

subsection \<open>Activation\<close>

lemma ms_floor_bounds:
  fixes t :: nat
  shows "t div 1000 * 1000 \<le> t \<and> t < t div 1000 * 1000 + 1000"
proof -
  have "t = t div 1000 * 1000 + t mod 1000" by simp
  moreover have "t mod 1000 < 1000" by simp
  ultimately show ?thesis by linarith
qed

text \<open>
  C4, as stated, fails in the expiry it names: the store keeps whole milliseconds, so
  the stored expiry is \<open>now\<close> plus twelve hours only when that instant is a whole
  millisecond. At clock value 1500 (microseconds) the activation succeeds and the stored
  expiry is 43200001000, not 43200001500.
\<close>

theorem activate_token_counterexample:
  "activate_token 1500 7 ''0f8fad5b-d9cb-469f-a165-70867728950e''
       [[(''user_id'', BInt 7), (''token'', BStr ''0f8fad5b-d9cb-469f-a165-70867728950e''),
         (''token_status'', BStr ''inactive''), (''token_expiry'', BNull)]] =
     ([[(''user_id'', BInt 7), (''token'', BStr ''0f8fad5b-d9cb-469f-a165-70867728950e''),
        (''token_status'', BStr ''active''), (''token_expiry'', BTime 43200001000)]], True) \<and>
   (43200001000 :: nat) \<noteq> 1500 + 12 * 3600000000"
  by (simp add: activate_token_def update_one_def matches_def get_field_def
        timedelta_hours_def TOKEN_EXPIRY_HOURS_def bson_datetime_def)

text \<open>
  C4, amended. \<^verbatim>\<open>activate_token\<close> returns true only when the collection holds a
  document whose user identity and token both equal the arguments; the document then
  carries the status \<^verbatim>\<open>active\<close> and, as its expiry, \<open>now\<close> plus twelve hours rounded
  down to a whole millisecond (so the expiry is at most \<open>now\<close> plus twelve hours and
  less than a millisecond before it), and every other document is as it was. When no
  document has both the user identity and the token (a stale token, or the exact token
  of another user), the collection is unchanged and the result is false. The function
  returns a value on every input.
\<close>

theorem activate_token_spec:
  "activate_token now uid tok coll = (coll', ok) \<Longrightarrow>
     (ok \<longrightarrow>
        (\<exists>pre d post d' expiry. coll = pre @ d # post \<and> coll' = pre @ d' # post \<and>
           get_field d ''user_id'' = Some (BInt uid) \<and> get_field d ''token'' = Some (BStr tok) \<and>
           get_field d' ''user_id'' = Some (BInt uid) \<and> get_field d' ''token'' = Some (BStr tok) \<and>
           get_field d' ''token_status'' = Some (BStr ''active'') \<and>
           get_field d' ''token_expiry'' = Some (BTime expiry) \<and>
           expiry = (now + 12 * 3600000000) div 1000 * 1000 \<and>
           expiry \<le> now + 12 * 3600000000 \<and> now + 12 * 3600000000 < expiry + 1000)) \<and>
     ((\<forall>d\<in>set coll. \<not> (get_field d ''user_id'' = Some (BInt uid) \<and>
                           get_field d ''token'' = Some (BStr tok))) \<longrightarrow>
        coll' = coll \<and> \<not> ok)"
proof (cases "\<exists>d\<in>set coll. matches [(''user_id'', BInt uid), (''token'', BStr tok)] d")
  case True
  let ?upd = "[(''token_status'', BStr ''active''),
              (''token_expiry'', BTime (bson_datetime (now + timedelta_hours TOKEN_EXPIRY_HOURS)))]"
  let ?expiry = "(now + 12 * 3600000000) div 1000 * 1000"
  assume a: "activate_token now uid tok coll = (coll', ok)"
  from update_first_match [OF True, of ?upd] obtain pre d post where
    h: "coll = pre @ d # post" "matches [(''user_id'', BInt uid), (''token'', BStr tok)] d"
       "update_first [(''user_id'', BInt uid), (''token'', BStr tok)] ?upd coll =
          (pre @ set_fields ?upd d # post, 1, if set_fields ?upd d = d then 0 else 1)"
    by blast
  from a h(3) have c': "coll' = pre @ set_fields ?upd d # post"
    by (simp add: activate_token_def update_one_def)
  have f: "get_field (set_fields ?upd d) ''user_id'' = Some (BInt uid)"
      "get_field (set_fields ?upd d) ''token'' = Some (BStr tok)"
      "get_field (set_fields ?upd d) ''token_status'' = Some (BStr ''active'')"
      "get_field (set_fields ?upd d) ''token_expiry'' = Some (BTime ?expiry)"
    using h(2)
    by (simp_all add: get_field_update matches_activate timedelta_hours_def
          TOKEN_EXPIRY_HOURS_def bson_datetime_def)
  have b: "?expiry \<le> now + 12 * 3600000000" "now + 12 * 3600000000 < ?expiry + 1000"
    using ms_floor_bounds [of "now + 12 * 3600000000"] by simp_all
  from h(1,2) c' f b True show ?thesis
    unfolding matches_activate by blast
next
  case False
  assume a: "activate_token now uid tok coll = (coll', ok)"
  from False have "update_first [(''user_id'', BInt uid), (''token'', BStr tok)]
      [(''token_status'', BStr ''active''),
       (''token_expiry'', BTime (bson_datetime (now + timedelta_hours TOKEN_EXPIRY_HOURS)))]
      coll = (coll, 0, 0)"
    by (intro update_first_no_match) simp
  with a have "coll' = coll" "\<not> ok"
    by (simp_all add: activate_token_def update_one_def)
  then show ?thesis by simp
qed

text \<open>
  A user activates the token issued to them at clock value 2500: the stored expiry is
  43200002000. Another user presenting the same token string changes nothing.
\<close>

theorem activate_token_spec_witness:
  "activate_token 2500 7 ''0f8fad5b-d9cb-469f-a165-70867728950e''
       [[(''user_id'', BInt 7), (''token'', BStr ''0f8fad5b-d9cb-469f-a165-70867728950e''),
         (''token_status'', BStr ''inactive''), (''token_expiry'', BNull)]] =
     ([[(''user_id'', BInt 7), (''token'', BStr ''0f8fad5b-d9cb-469f-a165-70867728950e''),
        (''token_status'', BStr ''active''), (''token_expiry'', BTime 43200002000)]], True) \<and>
   (\<exists>pre d post d'.
       [[(''user_id'', BInt 7), (''token'', BStr ''0f8fad5b-d9cb-469f-a165-70867728950e''),
         (''token_status'', BStr ''inactive''), (''token_expiry'', BNull)]] = pre @ d # post \<and>
       [[(''user_id'', BInt 7), (''token'', BStr ''0f8fad5b-d9cb-469f-a165-70867728950e''),
         (''token_status'', BStr ''active''), (''token_expiry'', BTime 43200002000)]] = pre @ d' # post \<and>
       get_field d' ''token_status'' = Some (BStr ''active'') \<and>
       get_field d' ''token_expiry'' = Some (BTime ((2500 + 12 * 3600000000) div 1000 * 1000))) \<and>
   activate_token 2500 8 ''0f8fad5b-d9cb-469f-a165-70867728950e''
       [[(''user_id'', BInt 7), (''token'', BStr ''0f8fad5b-d9cb-469f-a165-70867728950e''),
         (''token_status'', BStr ''inactive''), (''token_expiry'', BNull)]] =
     ([[(''user_id'', BInt 7), (''token'', BStr ''0f8fad5b-d9cb-469f-a165-70867728950e''),
         (''token_status'', BStr ''inactive''), (''token_expiry'', BNull)]], False)"
proof -
  let ?T = "''0f8fad5b-d9cb-469f-a165-70867728950e''"
  let ?c = "[[(''user_id'', BInt 7), (''token'', BStr ?T),
         (''token_status'', BStr ''inactive''), (''token_expiry'', BNull)]]"
  have e: "activate_token 2500 7 ?T ?c =
     ([[(''user_id'', BInt 7), (''token'', BStr ?T),
        (''token_status'', BStr ''active''), (''token_expiry'', BTime 43200002000)]], True)"
    by (simp add: activate_token_def update_one_def matches_def get_field_def
        timedelta_hours_def TOKEN_EXPIRY_HOURS_def bson_datetime_def)
  from activate_token_spec [OF e] have a: "\<exists>pre d post d'.
       ?c = pre @ d # post \<and>
       [[(''user_id'', BInt 7), (''token'', BStr ?T),
         (''token_status'', BStr ''active''), (''token_expiry'', BTime 43200002000)]] = pre @ d' # post \<and>
       get_field d' ''token_status'' = Some (BStr ''active'') \<and>
       get_field d' ''token_expiry'' = Some (BTime ((2500 + 12 * 3600000000) div 1000 * 1000))"
    by blast
  have n: "\<forall>d\<in>set ?c. \<not> (get_field d ''user_id'' = Some (BInt 8) \<and>
                           get_field d ''token'' = Some (BStr ?T))"
    by (simp add: get_field_def)
  obtain c' ok where r: "activate_token 2500 8 ?T ?c = (c', ok)"
    by (cases "activate_token 2500 8 ?T ?c") auto
  from activate_token_spec [OF r] n have "c' = ?c \<and> \<not> ok"
    by blast
  with r have "activate_token 2500 8 ?T ?c = (?c, False)" by simp
  with e a show ?thesis by blast
qed

subsection \<open>The validity check\<close>

text \<open>
  C5. In a well-formed collection, and in every collection that the token operations
  make of one, \<^verbatim>\<open>has_valid_token\<close> returns true exactly when a document of the user
  exists whose status is \<^verbatim>\<open>active\<close> and whose expiry is a timestamp strictly later than
  the clock. It returns false when the user's active document has an expiry that is not
  later than the clock. The check is a read: as a step it leaves the collection as it is.
\<close>

theorem has_valid_token_spec:
  "store_inv coll \<Longrightarrow>
     has_valid_token now uid (run_ops coll ops) =
       Inr (\<exists>d\<in>set (run_ops coll ops).
              get_field d ''user_id'' = Some (BInt uid) \<and>
              get_field d ''token_status'' = Some (BStr ''active'') \<and>
              (\<exists>t. get_field d ''token_expiry'' = Some (BTime t) \<and> now < t)) \<and>
     (\<forall>d\<in>set (run_ops coll ops).
        get_field d ''user_id'' = Some (BInt uid) \<and>
        get_field d ''token_status'' = Some (BStr ''active'') \<and>
        (\<exists>t. get_field d ''token_expiry'' = Some (BTime t) \<and> t \<le> now) \<longrightarrow>
        has_valid_token now uid (run_ops coll ops) = Inr False) \<and>
     token_step (run_ops coll ops) (Validate now uid) = run_ops coll ops"
proof -
  assume "store_inv coll"
  then have inv: "store_inv (run_ops coll ops)"
    by (rule store_inv_run)
  let ?c = "run_ops coll ops"
  have iff: "has_valid_token now uid ?c =
       Inr (\<exists>d\<in>set ?c.
              get_field d ''user_id'' = Some (BInt uid) \<and>
              get_field d ''token_status'' = Some (BStr ''active'') \<and>
              (\<exists>t. get_field d ''token_expiry'' = Some (BTime t) \<and> now < t))"
    using inv by (rule has_valid_token_inv)
  have past: "has_valid_token now uid ?c = Inr False"
    if d: "d \<in> set ?c" "get_field d ''user_id'' = Some (BInt uid)"
      "get_field d ''token_expiry'' = Some (BTime t)" "t \<le> now" for d t
  proof -
    have "\<not> (\<exists>d'\<in>set ?c.
              get_field d' ''user_id'' = Some (BInt uid) \<and>
              get_field d' ''token_status'' = Some (BStr ''active'') \<and>
              (\<exists>t'. get_field d' ''token_expiry'' = Some (BTime t') \<and> now < t'))"
    proof
      assume "\<exists>d'\<in>set ?c.
              get_field d' ''user_id'' = Some (BInt uid) \<and>
              get_field d' ''token_status'' = Some (BStr ''active'') \<and>
              (\<exists>t'. get_field d' ''token_expiry'' = Some (BTime t') \<and> now < t')"
      then obtain d' t' where d': "d' \<in> set ?c" "get_field d' ''user_id'' = Some (BInt uid)"
        "get_field d' ''token_expiry'' = Some (BTime t')" "now < t'"
        by blast
      from inv have "distinct (owners ?c)" by (simp add: store_inv_def)
      from owners_unique [OF this d'(1) d(1) d'(2) d(2)] have "d' = d" .
      with d'(3) d(3) have "t' = t" by simp
      with d'(4) d(4) show False by simp
    qed
    with iff show ?thesis by simp
  qed
  from iff past show ?thesis by auto
qed

text \<open>
  A token issued and then activated at time 1000 is valid at time 2000, and no longer
  valid at the instant of its expiry.
\<close>

theorem has_valid_token_spec_witness:
  "store_inv [] \<and>
   has_valid_token 2000 7
     (run_ops [] [Issue ''0f8fad5b-d9cb-469f-a165-70867728950e'' 7,
                  Activate 1000 7 ''0f8fad5b-d9cb-469f-a165-70867728950e'']) = Inr True \<and>
   has_valid_token 43200001000 7
     (run_ops [] [Issue ''0f8fad5b-d9cb-469f-a165-70867728950e'' 7,
                  Activate 1000 7 ''0f8fad5b-d9cb-469f-a165-70867728950e'']) = Inr False"
proof -
  let ?ops = "[Issue ''0f8fad5b-d9cb-469f-a165-70867728950e'' 7,
               Activate 1000 7 ''0f8fad5b-d9cb-469f-a165-70867728950e'']"
  let ?d = "[(''user_id'', BInt 7), (''token'', BStr ''0f8fad5b-d9cb-469f-a165-70867728950e''),
       (''token_status'', BStr ''active''), (''token_expiry'', BTime 43200001000)]"
  have e: "run_ops [] ?ops = [?d]"
    by (simp add: run_ops_def generate_uuid_def activate_token_def update_one_def matches_def
        get_field_def timedelta_hours_def TOKEN_EXPIRY_HOURS_def bson_datetime_def)
  have f: "get_field ?d ''user_id'' = Some (BInt 7)"
    "get_field ?d ''token_status'' = Some (BStr ''active'')"
    "get_field ?d ''token_expiry'' = Some (BTime 43200001000)"
    by (simp_all add: get_field_def)
  have a: "has_valid_token 2000 7 (run_ops [] ?ops) = Inr True"
    using has_valid_token_spec [OF store_inv_empty, of 2000 7 ?ops] f
    unfolding e by simp
  have b: "has_valid_token 43200001000 7 (run_ops [] ?ops) = Inr False"
    using has_valid_token_spec [OF store_inv_empty, of 43200001000 7 ?ops] f
    unfolding e by simp
  from a b store_inv_empty show ?thesis by simp
qed

subsection \<open>Active documents carry an expiry\<close>

text \<open>
  C9. In every collection reached from the empty one by issuing, activating and
  validating, a document whose status is \<^verbatim>\<open>active\<close> holds a timestamp as its expiry (not
  \<^verbatim>\<open>null\<close>), and \<^verbatim>\<open>has_valid_token\<close> returns a boolean there: its comparison of the clock
  with the stored expiry never raises.
\<close>

theorem active_has_expiry:
  "(\<forall>d\<in>set (run_ops [] ops).
      get_field d ''token_status'' = Some (BStr ''active'') \<longrightarrow>
      (\<exists>t. get_field d ''token_expiry'' = Some (BTime t))) \<and>
   (\<exists>b. has_valid_token now uid (run_ops [] ops) = Inr b)"
proof -
  have inv: "store_inv (run_ops [] ops)"
    using store_inv_empty by (rule store_inv_run)
  have "\<exists>t. get_field d ''token_expiry'' = Some (BTime t)"
    if "d \<in> set (run_ops [] ops)" "get_field d ''token_status'' = Some (BStr ''active'')" for d
  proof -
    from inv that(1) have "expiry_ok d"
      by (simp add: store_inv_def list_all_iff)
    with that(2) show ?thesis
      by (auto simp: expiry_ok_def is_time_def split: option.splits bson.splits)
  qed
  moreover have "\<exists>b. has_valid_token now uid (run_ops [] ops) = Inr b"
    using has_valid_token_inv [OF inv] by blast
  ultimately show ?thesis by blast
qed

text \<open>After an issue and an activation the user's document is active and holds an expiry.\<close>

theorem active_has_expiry_witness:
  "get_field (hd (run_ops [] [Issue ''0f8fad5b-d9cb-469f-a165-70867728950e'' 7,
               Activate 1000 7 ''0f8fad5b-d9cb-469f-a165-70867728950e''])) ''token_status'' =
     Some (BStr ''active'') \<and>
   hd (run_ops [] [Issue ''0f8fad5b-d9cb-469f-a165-70867728950e'' 7,
               Activate 1000 7 ''0f8fad5b-d9cb-469f-a165-70867728950e'']) \<in>
     set (run_ops [] [Issue ''0f8fad5b-d9cb-469f-a165-70867728950e'' 7,
               Activate 1000 7 ''0f8fad5b-d9cb-469f-a165-70867728950e'']) \<and>
   (\<exists>t. get_field (hd (run_ops [] [Issue ''0f8fad5b-d9cb-469f-a165-70867728950e'' 7,
               Activate 1000 7 ''0f8fad5b-d9cb-469f-a165-70867728950e''])) ''token_expiry'' =
     Some (BTime t))"
proof -
  let ?ops = "[Issue ''0f8fad5b-d9cb-469f-a165-70867728950e'' 7,
               Activate 1000 7 ''0f8fad5b-d9cb-469f-a165-70867728950e'']"
  let ?d = "[(''user_id'', BInt 7), (''token'', BStr ''0f8fad5b-d9cb-469f-a165-70867728950e''),
       (''token_status'', BStr ''active''), (''token_expiry'', BTime 43200001000)]"
  have e: "run_ops [] ?ops = [?d]"
    by (simp add: run_ops_def generate_uuid_def activate_token_def update_one_def matches_def
        get_field_def timedelta_hours_def TOKEN_EXPIRY_HOURS_def bson_datetime_def)
  have s: "get_field (hd (run_ops [] ?ops)) ''token_status'' = Some (BStr ''active'')"
    unfolding e by (simp add: get_field_def)
  have m: "hd (run_ops [] ?ops) \<in> set (run_ops [] ?ops)"
    unfolding e by simp
  from active_has_expiry [of ?ops 0 0] m s
  have "\<exists>t. get_field (hd (run_ops [] ?ops)) ''token_expiry'' = Some (BTime t)"
    by blast
  with s m show ?thesis by blast
qed

subsection \<open>The start command\<close>

lemma set_update_first:
  "d \<in> set (fst (update_first flt upd coll)) \<Longrightarrow>
   d \<in> set coll \<or> (\<exists>d0\<in>set coll. d = set_fields upd d0)"
  by (induction coll) (auto split: if_splits prod.splits)

lemma generate_uuid_active:
  assumes "d \<in> set (fst (generate_uuid token user_id coll))"
    and "get_field d ''token_status'' = Some (BStr ''active'')"
  shows "d \<in> set coll"
proof -
  let ?flt = "[(''user_id'', BInt user_id)]"
  let ?upd = "[(''token'', BStr token), (''token_status'', BStr ''inactive''), (''token_expiry'', BNull)]"
  have issued: "get_field (set_fields ?upd x) ''token_status'' = Some (BStr ''inactive'')" for x
    by (simp add: get_field_update)
  obtain coll' m n where u: "update_first ?flt ?upd coll = (coll', m, n)"
    by (cases "update_first ?flt ?upd coll") auto
  from assms(1) u have "d \<in> set coll' \<or> d \<in> set coll \<or> d = set_fields ?upd ?flt"
    by (auto simp: generate_uuid_def update_one_def simp del: set_fields.simps split: if_splits)
  moreover from u have "d \<in> set coll' \<Longrightarrow> d \<in> set coll \<or> (\<exists>d0\<in>set coll. d = set_fields ?upd d0)"
    using set_update_first [of d ?flt ?upd coll] by simp
  ultimately have "d \<in> set coll \<or> (\<exists>x. d = set_fields ?upd x)"
    by blast
  with issued assms(2) show ?thesis
    by auto
qed

text \<open>
  C10. \<^verbatim>\<open>start_handler\<close> calls \<^verbatim>\<open>activate_token\<close> exactly when the command carries an
  argument and that argument has 36 characters; the reply is then the outcome of the
  activation. With no argument, or an argument of any other length, it takes the plain
  path: the validity check, then a fresh token or the notice that one is active. On the
  plain path the reply is never an activation reply and no document becomes active.
\<close>

theorem start_handler_activation_guard:
  "(1 < length command \<and> length (command ! 1) = 36 \<longrightarrow>
      start_handler now fresh uid command coll =
        Inr (fst (activate_token now uid (command ! 1) coll),
             if snd (activate_token now uid (command ! 1) coll)
             then TokenActivated else InvalidToken)) \<and>
   (\<not> (1 < length command \<and> length (command ! 1) = 36) \<longrightarrow>
      start_handler now fresh uid command coll =
        (case has_valid_token now uid coll of
           Inl e \<Rightarrow> Inl e
         | Inr valid \<Rightarrow>
             if valid then Inr (coll, AlreadyActive)
             else Inr (fst (generate_uuid fresh uid coll), GenerateToken fresh)) \<and>
      (\<forall>coll' cap. start_handler now fresh uid command coll = Inr (coll', cap) \<longrightarrow>
         cap \<noteq> TokenActivated \<and> cap \<noteq> InvalidToken \<and>
         (\<forall>d\<in>set coll'. get_field d ''token_status'' = Some (BStr ''active'') \<longrightarrow>
                          d \<in> set coll)))"
proof (cases "1 < length command \<and> length (command ! 1) = 36")
  case True
  then show ?thesis
    by (simp add: start_handler_def split: prod.splits)
next
  case False
  have plain: "start_handler now fresh uid command coll =
        (case has_valid_token now uid coll of
           Inl e \<Rightarrow> Inl e
         | Inr valid \<Rightarrow>
             if valid then Inr (coll, AlreadyActive)
             else Inr (fst (generate_uuid fresh uid coll), GenerateToken fresh))"
    using False by (auto simp: start_handler_def generate_uuid_def split: sum.splits)
  have "cap \<noteq> TokenActivated \<and> cap \<noteq> InvalidToken \<and>
         (\<forall>d\<in>set coll'. get_field d ''token_status'' = Some (BStr ''active'') \<longrightarrow> d \<in> set coll)"
    if r: "start_handler now fresh uid command coll = Inr (coll', cap)" for coll' cap
  proof (cases "has_valid_token now uid coll")
    case (Inl e)
    with plain r show ?thesis by simp
  next
    case (Inr valid)
    show ?thesis
    proof (cases valid)
      case True
      with plain r Inr show ?thesis by auto
    next
      case v: False
      with plain r Inr have "coll' = fst (generate_uuid fresh uid coll)" "cap = GenerateToken fresh"
        by simp_all
      then show ?thesis
        by (auto intro: generate_uuid_active)
    qed
  qed
  with plain False show ?thesis by blast
qed

text \<open>
  A start with the 36-character token activates it; a start with a 23-character
  argument issues a fresh token instead; a bare start with an active token reports it.
\<close>

theorem start_handler_activation_guard_witness:
  "start_handler 1000 ''f47ac10b-58cc-4372-a567-0e02b2c3d479'' 7
       [''start'', ''0f8fad5b-d9cb-469f-a165-70867728950e'']
       [[(''user_id'', BInt 7), (''token'', BStr ''0f8fad5b-d9cb-469f-a165-70867728950e''),
         (''token_status'', BStr ''inactive''), (''token_expiry'', BNull)]] =
     Inr ([[(''user_id'', BInt 7), (''token'', BStr ''0f8fad5b-d9cb-469f-a165-70867728950e''),
            (''token_status'', BStr ''active''), (''token_expiry'', BTime 43200001000)]],
          TokenActivated) \<and>
   start_handler 1000 ''f47ac10b-58cc-4372-a567-0e02b2c3d479'' 7
       [''start'', ''0f8fad5b-d9cb-469f-a165'']
       [[(''user_id'', BInt 7), (''token'', BStr ''0f8fad5b-d9cb-469f-a165-70867728950e''),
         (''token_status'', BStr ''inactive''), (''token_expiry'', BNull)]] =
     Inr ([[(''user_id'', BInt 7), (''token'', BStr ''f47ac10b-58cc-4372-a567-0e02b2c3d479''),
            (''token_status'', BStr ''inactive''), (''token_expiry'', BNull)]],
          GenerateToken ''f47ac10b-58cc-4372-a567-0e02b2c3d479'') \<and>
   start_handler 1000 ''f47ac10b-58cc-4372-a567-0e02b2c3d479'' 7 [''start'']
       [[(''user_id'', BInt 7), (''token'', BStr ''0f8fad5b-d9cb-469f-a165-70867728950e''),
         (''token_status'', BStr ''active''), (''token_expiry'', BTime 43200001000)]] =
     Inr ([[(''user_id'', BInt 7), (''token'', BStr ''0f8fad5b-d9cb-469f-a165-70867728950e''),
            (''token_status'', BStr ''active''), (''token_expiry'', BTime 43200001000)]],
          AlreadyActive)"
proof -
  let ?T = "''0f8fad5b-d9cb-469f-a165-70867728950e''"
  let ?F = "''f47ac10b-58cc-4372-a567-0e02b2c3d479''"
  let ?c = "[[(''user_id'', BInt 7), (''token'', BStr ?T),
         (''token_status'', BStr ''inactive''), (''token_expiry'', BNull)]]"
  let ?a = "[[(''user_id'', BInt 7), (''token'', BStr ?T),
         (''token_status'', BStr ''active''), (''token_expiry'', BTime 43200001000)]]"
  have g1: "1 < length [''start'', ?T] \<and> length ([''start'', ?T] ! 1) = 36"
    by simp
  have e1: "activate_token 1000 7 ?T ?c = (?a, True)"
    by (simp add: activate_token_def update_one_def matches_def get_field_def
        timedelta_hours_def TOKEN_EXPIRY_HOURS_def bson_datetime_def)
  have a: "start_handler 1000 ?F 7 [''start'', ?T] ?c = Inr (?a, TokenActivated)"
    using start_handler_activation_guard [of "[''start'', ?T]" 1000 ?F 7 ?c] g1 e1
    by simp
  have g2: "\<not> (1 < length [''start'', ''0f8fad5b-d9cb-469f-a165''] \<and>
              length ([''start'', ''0f8fad5b-d9cb-469f-a165''] ! 1) = 36)"
    by simp
  have v2: "has_valid_token 1000 7 ?c = Inr False"
    by (simp add: has_valid_token_def find_one_def matches_def get_field_def)
  have i2: "fst (generate_uuid ?F 7 ?c) =
     [[(''user_id'', BInt 7), (''token'', BStr ?F),
       (''token_status'', BStr ''inactive''), (''token_expiry'', BNull)]]"
    by (simp add: generate_uuid_def update_one_def matches_def get_field_def)
  have b: "start_handler 1000 ?F 7 [''start'', ''0f8fad5b-d9cb-469f-a165''] ?c =
     Inr ([[(''user_id'', BInt 7), (''token'', BStr ?F),
            (''token_status'', BStr ''inactive''), (''token_expiry'', BNull)]], GenerateToken ?F)"
    using start_handler_activation_guard
            [of "[''start'', ''0f8fad5b-d9cb-469f-a165'']" 1000 ?F 7 ?c] g2 v2 i2
    by simp
  have g3: "\<not> (1 < length [''start''] \<and> length ([''start''] ! 1) = 36)"
    by simp
  have v3: "has_valid_token 1000 7 ?a = Inr True"
    by (simp add: has_valid_token_def find_one_def matches_def get_field_def)
  have c: "start_handler 1000 ?F 7 [''start''] ?a = Inr (?a, AlreadyActive)"
    using start_handler_activation_guard [of "[''start'']" 1000 ?F 7 ?a] g3 v3
    by simp
  from a b c show ?thesis by simp
qed

section \<open>Properties of the link validator\<close>

lemma endswith_suffix: "endswith s suf \<longleftrightarrow> suffix suf s"
proof
  assume "endswith s suf"
  then have "s = take (length s - length suf) s @ suf"
    by (metis append_take_drop_id endswith_def)
  then show "suffix suf s"
    by (metis suffixI)
next
  assume "suffix suf s"
  then obtain pre where "s = pre @ suf" by (auto simp: suffix_def)
  then show "endswith s suf" by (simp add: endswith_def)
qed

lemma is_valid_url_parsed:
  "urlparse_netloc chk url = Inr netloc \<Longrightarrow>
   is_valid_url chk url = Inr (\<exists>domain\<in>set VALID_DOMAINS. suffix domain netloc)"
  by (simp add: is_valid_url_def list_ex_iff endswith_suffix)

text \<open>
  C8, as stated, fails twice. A string whose network location has an opening square
  bracket and no closing one makes \<^verbatim>\<open>urlparse\<close> raise \<^verbatim>\<open>ValueError\<close>, which
  \<^verbatim>\<open>is_valid_url\<close> does not catch. And the test is \<^verbatim>\<open>str.endswith\<close> on the network
  location, so a host that is neither an allow-listed domain nor a subdomain of one, but
  ends with the letters of one, is accepted. Neither result depends on the version
  parameter.
\<close>

theorem is_valid_url_counterexample:
  "is_valid_url (\<lambda>_. True) ''http://['' = Inl ValueError \<and>
   is_valid_url (\<lambda>_. False) ''http://['' = Inl ValueError \<and>
   is_valid_url (\<lambda>_. True) ''https://evilterabox.com/s/1abc'' = Inr True \<and>
   is_valid_url (\<lambda>_. False) ''https://evilterabox.com/s/1abc'' = Inr True"
  by (simp add: is_valid_url_def urlparse_netloc_def lstrip_c0_def remove_unsafe_def
      strip_scheme_def splitnetloc_def is_ascii_alpha_def scheme_char_def VALID_DOMAINS_def
      endswith_def)

text \<open>
  C8, amended. For every string that \<^verbatim>\<open>urlparse\<close> parses, \<^verbatim>\<open>is_valid_url\<close> returns a
  boolean: true exactly when the network location ends with one of the allow-listed
  domain strings. So it is true when the network location is an allow-listed domain or a
  subdomain of one, and false when the string has no network location (no \<^verbatim>\<open>//\<close> after
  the scheme, as in a host name typed without a scheme).
\<close>

theorem is_valid_url_spec:
  "urlparse_netloc chk url = Inr netloc \<Longrightarrow>
     is_valid_url chk url = Inr (\<exists>domain\<in>set VALID_DOMAINS. suffix domain netloc) \<and>
     ((\<exists>domain\<in>set VALID_DOMAINS. netloc = domain \<or> (\<exists>sub. netloc = sub @ ''.'' @ domain)) \<longrightarrow>
        is_valid_url chk url = Inr True) \<and>
     (netloc = [] \<longrightarrow> is_valid_url chk url = Inr False)"
proof -
  assume p: "urlparse_netloc chk url = Inr netloc"
  then have r: "is_valid_url chk url = Inr (\<exists>domain\<in>set VALID_DOMAINS. suffix domain netloc)"
    by (rule is_valid_url_parsed)
  have "\<exists>domain\<in>set VALID_DOMAINS. suffix domain netloc"
    if "\<exists>domain\<in>set VALID_DOMAINS. netloc = domain \<or> (\<exists>sub. netloc = sub @ ''.'' @ domain)"
  proof -
    from that obtain domain where d: "domain \<in> set VALID_DOMAINS"
      "netloc = domain \<or> (\<exists>sub. netloc = sub @ ''.'' @ domain)" by blast
    from d(2) have "suffix domain netloc"
    proof
      assume "netloc = domain"
      then show ?thesis by simp
    next
      assume "\<exists>sub. netloc = sub @ ''.'' @ domain"
      then obtain sub where "netloc = (sub @ ''.'') @ domain" by auto
      then show ?thesis by (rule suffixI)
    qed
    with d(1) show ?thesis by blast
  qed
  moreover have "\<not> (\<exists>domain\<in>set VALID_DOMAINS. suffix domain netloc)" if "netloc = []"
    using that by (simp add: VALID_DOMAINS_def)
  ultimately show ?thesis using r by simp
qed

text \<open>A subdomain with a scheme is accepted; the same host typed without a scheme is not.\<close>

theorem is_valid_url_spec_witness:
  "urlparse_netloc (\<lambda>_. True) ''https://www.terabox.com/s/1abc'' = Inr ''www.terabox.com'' \<and>
   is_valid_url (\<lambda>_. True) ''https://www.terabox.com/s/1abc'' = Inr True \<and>
   urlparse_netloc (\<lambda>_. True) ''terabox.com/s/1abc'' = Inr [] \<and>
   is_valid_url (\<lambda>_. True) ''terabox.com/s/1abc'' = Inr False"
proof -
  have p1: "urlparse_netloc (\<lambda>_. True) ''https://www.terabox.com/s/1abc'' = Inr ''www.terabox.com''"
    by (simp add: urlparse_netloc_def lstrip_c0_def remove_unsafe_def
      strip_scheme_def splitnetloc_def is_ascii_alpha_def scheme_char_def)
  have d1: "\<exists>domain\<in>set VALID_DOMAINS.
      ''www.terabox.com'' = domain \<or> (\<exists>sub. ''www.terabox.com'' = sub @ ''.'' @ domain)"
  proof -
    have "''terabox.com'' \<in> set VALID_DOMAINS" by (simp add: VALID_DOMAINS_def)
    moreover have "''www.terabox.com'' = ''www'' @ ''.'' @ ''terabox.com''" by simp
    ultimately show ?thesis by blast
  qed
  from is_valid_url_spec [OF p1] d1
  have a: "is_valid_url (\<lambda>_. True) ''https://www.terabox.com/s/1abc'' = Inr True"
    by blast
  have p2: "urlparse_netloc (\<lambda>_. True) ''terabox.com/s/1abc'' = Inr []"
    by (simp add: urlparse_netloc_def lstrip_c0_def remove_unsafe_def
      strip_scheme_def splitnetloc_def is_ascii_alpha_def scheme_char_def)
  from is_valid_url_spec [OF p2]
  have b: "is_valid_url (\<lambda>_. True) ''terabox.com/s/1abc'' = Inr False"
    by blast
  from p1 a p2 b show ?thesis by blast
qed

section \<open>Properties of the upload pipeline\<close>

declare digits10.simps [simp del]

declare bit_length.simps [simp del]

subsection \<open>Part names and the number of parts\<close>

lemma splitext_append: "fst (splitext p) @ snd (splitext p) = p"
  by (simp add: splitext_def Let_def)

lemma length_digits10_small: "n < 1000 \<Longrightarrow> length (digits10 n) \<le> 3"
proof -
  assume n: "n < 1000"
  show ?thesis
  proof (cases "n < 10")
    case True
    then show ?thesis by (subst digits10.simps) simp
  next
    case a: False
    show ?thesis
    proof (cases "n div 10 < 10")
      case True
      with a show ?thesis
        by (subst digits10.simps, subst digits10.simps) simp
    next
      case b: False
      from n have "n div 10 div 10 < 10" by simp
      with a b show ?thesis
        by (subst digits10.simps, subst digits10.simps, subst digits10.simps) simp
    qed
  qed
qed

lemma length_fmt_03d: "n < 1000 \<Longrightarrow> length (fmt_03d n) = 3"
  using length_digits10_small [of n] by (simp add: fmt_03d_def)

lemma read_digits_snoc:
  "read_digits (s @ [c]) = 10 * read_digits s + (of_char c - 48)"
  by (simp add: read_digits_def)

lemma of_char_digit: "d < 10 \<Longrightarrow> (of_char (digit_char d) :: nat) = 48 + d"
  by (simp add: digit_char_def)

lemma read_digits10: "read_digits (digits10 n) = n"
proof (induction n rule: digits10.induct)
  case (1 n)
  show ?case
  proof (cases "n < 10")
    case True
    then show ?thesis
      by (subst digits10.simps) (simp add: read_digits_def of_char_digit)
  next
    case False
    with "1.IH" have "read_digits (digits10 (n div 10)) = n div 10" by simp
    with False show ?thesis
      by (subst digits10.simps) (simp add: read_digits_snoc of_char_digit)
  qed
qed

lemma read_digits_zeros: "read_digits (replicate k CHR ''0'' @ s) = read_digits s"
proof -
  have "foldl (\<lambda>a c. 10 * a + (of_char c - 48)) 0 (replicate k CHR ''0'') = (0::nat)"
    by (induction k) simp_all
  then show ?thesis by (simp add: read_digits_def)
qed

lemma read_fmt_03d: "read_digits (fmt_03d n) = n"
  by (simp add: fmt_03d_def read_digits_zeros read_digits10)

lemma ceil_div_nat:
  fixes n d :: nat
  assumes "0 < d"
  shows "(n + d - 1) div d = (if n mod d = 0 then n div d else n div d + 1)"
proof -
  define X where "X = d * (n div d)"
  define r where "r = n mod d"
  have n: "n = X + r" by (simp add: X_def r_def)
  have rd: "r < d" using assms by (simp add: r_def)
  show ?thesis
  proof (cases "r = 0")
    case True
    have "d * (n div d) \<le> n + d - 1" using n True assms unfolding X_def by linarith
    moreover have "n + d - 1 < d * Suc (n div d)"
      using n True assms unfolding X_def mult_Suc_right by linarith
    ultimately have "(n + d - 1) div d = n div d"
      by (rule div_nat_eqI)
    with True show ?thesis by (simp add: r_def)
  next
    case False
    have "d * (n div d + 1) \<le> n + d - 1"
      using n False assms unfolding X_def add_mult_distrib2 by simp
    moreover have "n + d - 1 < d * Suc (n div d + 1)"
      using n rd assms unfolding X_def mult_Suc_right add_mult_distrib2 by simp
    ultimately have "(n + d - 1) div d = n div d + 1"
      by (rule div_nat_eqI)
    with False show ?thesis by (simp add: r_def)
  qed
qed

lemma ceil_div_real:
  fixes n d :: nat
  assumes "0 < d"
  shows "(n + d - 1) div d = nat \<lceil>real n / real d\<rceil>"
proof -
  have "\<lceil>real_of_int (int n) / real_of_int (int d)\<rceil> = - (- int n div int d)"
    by (rule ceiling_divide_eq_div)
  then have c: "\<lceil>real n / real d\<rceil> = - (- int n div int d)"
    by simp
  have nz: "int d \<noteq> 0" using assms by simp
  have m: "int n mod int d = int (n mod d)" "int n div int d = int (n div d)"
    by (simp_all add: zmod_int zdiv_int)
  have "- (- int n div int d) = (if n mod d = 0 then int (n div d) else int (n div d) + 1)"
    unfolding zdiv_zminus1_eq_if [OF nz] m by simp
  with c have "\<lceil>real n / real d\<rceil> = int (if n mod d = 0 then n div d else n div d + 1)"
    by simp
  then have "nat \<lceil>real n / real d\<rceil> = (if n mod d = 0 then n div d else n div d + 1)"
    by (simp only: nat_int)
  with ceil_div_nat [OF assms, of n] show ?thesis by simp
qed

lemma parts_count_small:
  assumes "file_size < 2 ^ 53"
  shows "parts_count file_size = nat \<lceil>real file_size / real DEFAULT_SPLIT_SIZE\<rceil>"
proof -
  have "0 < DEFAULT_SPLIT_SIZE" by (simp add: DEFAULT_SPLIT_SIZE_def)
  from ceil_div_real [OF this, of file_size] assms show ?thesis
    by (simp add: parts_count_def nearest_double_def)
qed

text \<open>
  The bound \<open>2 ^ 53\<close> is where the float division stops being exact: one byte above it
  the quotient is rounded down before \<^verbatim>\<open>math.ceil\<close> sees it.
\<close>

lemma parts_count_rounded:
  "parts_count (2 ^ 53 + 1) = 2 ^ 22 \<and>
   (2 ^ 53 + 1 + DEFAULT_SPLIT_SIZE - 1) div DEFAULT_SPLIT_SIZE = 2 ^ 22 + 1"
proof -
  have "bit_length 9007199254740993 = 54"
    by (simp add: bit_length.simps)
  then show ?thesis
    by (simp add: parts_count_def nearest_double_def DEFAULT_SPLIT_SIZE_def Let_def)
qed

subsection \<open>The split loop\<close>

lemma ffmpeg_cmds_append: "ffmpeg_cmds (xs @ ys) = ffmpeg_cmds xs @ ffmpeg_cmds ys"
  by (induction xs rule: ffmpeg_cmds.induct) simp_all

lemma cmd_output_part_cmd: "cmd_output (part_cmd env p dpp i) = part_path p i"
  by (simp add: part_cmd_def)

lemma split_parts_ok:
  "split_parts env p dpp is w acc = (w', Inr r) \<Longrightarrow>
     r = acc @ map (part_path p) is \<and>
     ffmpeg_cmds (calls w') = ffmpeg_cmds (calls w) @ map (part_cmd env p dpp) is"
proof (induction "is" arbitrary: w acc)
  case Nil
  then show ?case by simp
next
  case (Cons i rest)
  let ?c = "part_cmd env p dpp i"
  let ?w1 = "record_call (Ffmpeg ?c) w"
  from Cons.prems obtain status written where
    run: "ffmpeg env ?c = Exited status written"
    by (cases "ffmpeg env ?c") (auto simp: Let_def)
  let ?w2 = "case written of None \<Rightarrow> ?w1 | Some sz \<Rightarrow> ?w1\<lparr>disk := (disk ?w1)(cmd_output ?c \<mapsto> sz)\<rparr>"
  from Cons.prems run have "split_parts env p dpp rest ?w2 (acc @ [cmd_output ?c]) = (w', Inr r)"
    by (simp add: Let_def)
  from Cons.IH [OF this] have
    "r = (acc @ [cmd_output ?c]) @ map (part_path p) rest"
    "ffmpeg_cmds (calls w') = ffmpeg_cmds (calls ?w2) @ map (part_cmd env p dpp) rest"
    by simp_all
  moreover have "ffmpeg_cmds (calls ?w2) = ffmpeg_cmds (calls w) @ [?c]"
    by (simp add: record_call_def ffmpeg_cmds_append split: option.splits)
  ultimately show ?case
    by (simp add: cmd_output_part_cmd)
qed

lemma split_parts_result:
  "snd (split_parts env p dpp is w acc) =
     (if \<exists>i\<in>set is. ffmpeg env (part_cmd env p dpp i) = LaunchFailed then Inl OSError
      else Inr (acc @ map (part_path p) is))"
proof (induction "is" arbitrary: w acc)
  case Nil
  then show ?case by simp
next
  case (Cons i rest)
  show ?case
  proof (cases "ffmpeg env (part_cmd env p dpp i)")
    case LaunchFailed
    then show ?thesis by (simp add: Let_def)
  next
    case (Exited status written)
    then show ?thesis
      by (simp add: Let_def Cons.IH cmd_output_part_cmd)
  qed
qed

lemma split_video_result:
  assumes "probe env p = Inr total_duration" and "disk w p = Some file_size"
    and "0 < parts_count file_size"
  shows "snd (split_video env p w) =
     (if \<exists>i<parts_count file_size.
           ffmpeg env (part_cmd env p (fdiv env total_duration (parts_count file_size)) i) = LaunchFailed
      then Inl OSError
      else Inr (map (part_path p) [0..<parts_count file_size]))"
proof -
  let ?n = "parts_count file_size"
  let ?r = "split_parts env p (fdiv env total_duration ?n) [0..<?n] w []"
  have b: "split_video_body env p w = ?r"
    using assms by (simp add: split_video_body_def Let_def)
  have "snd (split_video env p w) = snd ?r"
    unfolding split_video_def b by (cases ?r) (auto split: sum.splits)
  then show ?thesis
    by (simp add: split_parts_result)
qed

subsection \<open>The concrete run\<close>

lemma example_parts_count: "parts_count 5368709120 = 3"
  by (simp add: parts_count_def nearest_double_def DEFAULT_SPLIT_SIZE_def)

lemma example_splitext: "splitext ''/downloads/video.mp4'' = (''/downloads/video'', ''.mp4'')"
  by (simp add: splitext_def rfind_def)

lemma example_fmt: "fmt_03d 1 = ''001''" "fmt_03d 2 = ''002''" "fmt_03d 3 = ''003''"
  by code_simp+

lemma example_part_paths:
  "map (part_path ''/downloads/video.mp4'') [0..<3] =
     [''/downloads/video.part001.mp4'', ''/downloads/video.part002.mp4'',
      ''/downloads/video.part003.mp4'']"
  by code_simp

lemma example_split:
  "snd (split_video example_env ''/downloads/video.mp4'' example_world) =
     Inr [''/downloads/video.part001.mp4'', ''/downloads/video.part002.mp4'',
          ''/downloads/video.part003.mp4'']"
proof -
  have "snd (split_video example_env ''/downloads/video.mp4'' example_world) =
     Inr (map (part_path ''/downloads/video.mp4'') [0..<3])"
  proof -
    have a: "probe example_env ''/downloads/video.mp4'' = Inr 3000"
      by (simp add: example_env_def)
    have b: "disk example_world ''/downloads/video.mp4'' = Some 5368709120"
      by (simp add: example_world_def)
    have c: "0 < parts_count 5368709120" by (simp add: example_parts_count)
    have d: "\<not> (\<exists>i<3. ffmpeg example_env (part_cmd example_env ''/downloads/video.mp4''
                (fdiv example_env 3000 3) i) = LaunchFailed)"
      by (simp add: example_env_def)
    from split_video_result [OF a b c] d show ?thesis
      by (simp add: example_parts_count)
  qed
  then show ?thesis by (simp only: example_part_paths)
qed

subsection \<open>What a split produces\<close>

text \<open>
  C7, as stated, fails where the elevated upload client is configured. The ceiling that
  decides whether to split is then 4 GB, but \<^verbatim>\<open>split_video\<close> always divides by
  \<^verbatim>\<open>DEFAULT_SPLIT_SIZE\<close> (2 GB): a file of 5 GB is above the ceiling, the claim's count
  for it is 2, and the code makes 3 parts.
\<close>

theorem split_video_parts_counterexample:
  "split_size (user_client (example_env\<lparr>user_client := True\<rparr>)) = 4294967296 \<and>
   split_size (user_client (example_env\<lparr>user_client := True\<rparr>)) < 5368709120 \<and>
   nat \<lceil>real 5368709120 / real (split_size (user_client (example_env\<lparr>user_client := True\<rparr>)))\<rceil> = 2 \<and>
   snd (split_video (example_env\<lparr>user_client := True\<rparr>) ''/downloads/video.mp4'' example_world) =
     Inr [''/downloads/video.part001.mp4'', ''/downloads/video.part002.mp4'',
          ''/downloads/video.part003.mp4'']"
proof -
  let ?env = "example_env\<lparr>user_client := True\<rparr>"
  let ?P = "''/downloads/video.mp4''"
  have s: "split_size (user_client ?env) = 4294967296"
    by (simp add: split_size_def VIP_SPLIT_SIZE_def)
  have "\<lceil>(5368709120::real) / 4294967296\<rceil> = 2"
    by (simp add: ceiling_eq_iff)
  then have c: "nat \<lceil>real 5368709120 / real (split_size (user_client ?env))\<rceil> = 2"
    unfolding s by simp
  have a: "probe ?env ?P = Inr 3000"
    by (simp add: example_env_def)
  have b: "disk example_world ?P = Some 5368709120"
    by (simp add: example_world_def)
  have p: "0 < parts_count 5368709120" by (simp add: example_parts_count)
  have d: "\<not> (\<exists>i<3. ffmpeg ?env (part_cmd ?env ?P (fdiv ?env 3000 3) i) = LaunchFailed)"
    by (simp add: example_env_def)
  from split_video_result [OF a b p] d
  have "snd (split_video ?env ?P example_world) = Inr (map (part_path ?P) [0..<3])"
    by (simp add: example_parts_count)
  then have r: "snd (split_video ?env ?P example_world) =
     Inr [''/downloads/video.part001.mp4'', ''/downloads/video.part002.mp4'',
          ''/downloads/video.part003.mp4'']"
    by (simp only: example_part_paths)
  from s c r show ?thesis by simp
qed

text \<open>
  C7, amended. The target part size is always \<^verbatim>\<open>DEFAULT_SPLIT_SIZE\<close> (2 GB), whichever
  upload client is configured. When \<^verbatim>\<open>split_video\<close> returns for a file of \<open>S\<close> bytes,
  \<open>S\<close> below \<open>2 ^ 53\<close> (where the float division is exact), it returns exactly
  \<open>\<lceil>S / 2 GB\<rceil>\<close> parts in order. The name of part \<open>i\<close> (from 0) is the input path with
  \<^verbatim>\<open>.part\<close> and the number \<open>i + 1\<close> inserted before its extension; the number is padded
  with zeros to three digits (exactly three digits up to part 999) and reads back as
  \<open>i + 1\<close>, so the suffixes increase strictly. The stream-copy invocations, in order,
  have as start offset \<open>i\<close> times the duration per part and as length the duration per
  part, which is the probed duration divided by the number of parts.
\<close>

theorem split_video_parts:
  assumes "split_video env input_path w = (w', Inr parts)"
    and "probe env input_path = Inr total_duration"
    and "disk w input_path = Some file_size"
    and "file_size < 2 ^ 53"
  shows "length parts = nat \<lceil>real file_size / real DEFAULT_SPLIT_SIZE\<rceil> \<and>
     fst (splitext input_path) @ snd (splitext input_path) = input_path \<and>
     (\<forall>i<length parts.
        parts ! i =
          fst (splitext input_path) @ ''.part'' @ fmt_03d (i + 1) @ snd (splitext input_path) \<and>
        read_digits (fmt_03d (i + 1)) = i + 1 \<and>
        (i + 1 < 1000 \<longrightarrow> length (fmt_03d (i + 1)) = 3)) \<and>
     ffmpeg_cmds (calls w') =
       ffmpeg_cmds (calls w) @
       map (\<lambda>i. \<lparr>cmd_ss = fmul env i (fdiv env total_duration (length parts)),
                  cmd_input = input_path,
                  cmd_t = fdiv env total_duration (length parts),
                  cmd_output = parts ! i\<rparr>)
         [0..<length parts]"
proof -
  let ?n = "parts_count file_size"
  let ?dpp = "fdiv env total_duration ?n"
  from assms(1) obtain w0 where body: "split_video_body env input_path w = (w0, Inr parts)"
    and w0: "w0 = w'"
    by (cases "split_video_body env input_path w")
       (auto simp: split_video_def split: sum.splits)
  from body assms(2,3) have loop:
    "?n \<noteq> 0" "split_parts env input_path ?dpp [0..<?n] w [] = (w', Inr parts)"
    unfolding w0 by (auto simp: split_video_body_def Let_def split: if_splits)
  from split_parts_ok [OF loop(2)] have
    parts: "parts = map (part_path input_path) [0..<?n]" and
    cmds: "ffmpeg_cmds (calls w') =
             ffmpeg_cmds (calls w) @ map (part_cmd env input_path ?dpp) [0..<?n]"
    by simp_all
  from parts have len: "length parts = ?n" by simp
  have count: "length parts = nat \<lceil>real file_size / real DEFAULT_SPLIT_SIZE\<rceil>"
    using len parts_count_small [OF assms(4)] by simp
  have names: "parts ! i =
          fst (splitext input_path) @ ''.part'' @ fmt_03d (i + 1) @ snd (splitext input_path)"
    if "i < length parts" for i
    using that len unfolding parts by (simp add: part_path_def)
  have "map (part_cmd env input_path ?dpp) [0..<?n] =
       map (\<lambda>i. \<lparr>cmd_ss = fmul env i (fdiv env total_duration (length parts)),
                  cmd_input = input_path,
                  cmd_t = fdiv env total_duration (length parts),
                  cmd_output = parts ! i\<rparr>)
         [0..<length parts]"
    unfolding len by (rule map_cong) (simp_all add: part_cmd_def parts)
  with cmds have launched: "ffmpeg_cmds (calls w') =
       ffmpeg_cmds (calls w) @
       map (\<lambda>i. \<lparr>cmd_ss = fmul env i (fdiv env total_duration (length parts)),
                  cmd_input = input_path,
                  cmd_t = fdiv env total_duration (length parts),
                  cmd_output = parts ! i\<rparr>)
         [0..<length parts]"
    by simp
  from count names launched show ?thesis
    by (simp add: splitext_append read_fmt_03d length_fmt_03d)
qed

text \<open>The 5 GB video of 3000 seconds gives three parts of 1000 seconds each.\<close>

theorem split_video_parts_witness:
  "snd (split_video example_env ''/downloads/video.mp4'' example_world) =
     Inr [''/downloads/video.part001.mp4'', ''/downloads/video.part002.mp4'',
          ''/downloads/video.part003.mp4''] \<and>
   nat \<lceil>real 5368709120 / real DEFAULT_SPLIT_SIZE\<rceil> = 3 \<and>
   ffmpeg_cmds (calls (fst (split_video example_env ''/downloads/video.mp4'' example_world))) =
     [\<lparr>cmd_ss = 0, cmd_input = ''/downloads/video.mp4'', cmd_t = 1000,
       cmd_output = ''/downloads/video.part001.mp4''\<rparr>,
      \<lparr>cmd_ss = 1000, cmd_input = ''/downloads/video.mp4'', cmd_t = 1000,
       cmd_output = ''/downloads/video.part002.mp4''\<rparr>,
      \<lparr>cmd_ss = 2000, cmd_input = ''/downloads/video.mp4'', cmd_t = 1000,
       cmd_output = ''/downloads/video.part003.mp4''\<rparr>]"
proof -
  let ?P = "''/downloads/video.mp4''"
  let ?parts = "[''/downloads/video.part001.mp4'', ''/downloads/video.part002.mp4'',
          ''/downloads/video.part003.mp4'']"
  have r: "snd (split_video example_env ?P example_world) = Inr ?parts"
    by (rule example_split)
  then have e: "split_video example_env ?P example_world =
      (fst (split_video example_env ?P example_world), Inr ?parts)"
    by (metis prod.collapse)
  have a: "probe example_env ?P = Inr 3000"
    by (simp add: example_env_def)
  have b: "disk example_world ?P = Some 5368709120"
    by (simp add: example_world_def)
  have c: "(5368709120::nat) < 2 ^ 53" by simp
  have u: "[0..<length ?parts] = [0, 1, 2]"
    by (simp add: upt_rec)
  note t = split_video_parts [OF e a b c]
  from t have n: "nat \<lceil>real 5368709120 / real DEFAULT_SPLIT_SIZE\<rceil> = 3"
    by simp
  from t have "ffmpeg_cmds (calls (fst (split_video example_env ?P example_world))) =
       ffmpeg_cmds (calls example_world) @
       map (\<lambda>i. \<lparr>cmd_ss = fmul example_env i (fdiv example_env 3000 (length ?parts)),
                  cmd_input = ?P,
                  cmd_t = fdiv example_env 3000 (length ?parts),
                  cmd_output = ?parts ! i\<rparr>)
         [0..<length ?parts]"
    by blast
  then have m: "ffmpeg_cmds (calls (fst (split_video example_env ?P example_world))) =
     [\<lparr>cmd_ss = 0, cmd_input = ?P, cmd_t = 1000, cmd_output = ''/downloads/video.part001.mp4''\<rparr>,
      \<lparr>cmd_ss = 1000, cmd_input = ?P, cmd_t = 1000, cmd_output = ''/downloads/video.part002.mp4''\<rparr>,
      \<lparr>cmd_ss = 2000, cmd_input = ?P, cmd_t = 1000, cmd_output = ''/downloads/video.part003.mp4''\<rparr>]"
    unfolding u by (simp add: example_env_def example_world_def)
  from r n m show ?thesis by blast
qed

subsection \<open>When a split fails\<close>

lemma part_path_inj: "part_path p i = part_path p j \<Longrightarrow> i = j"
proof -
  assume "part_path p i = part_path p j"
  then have "fmt_03d (i + 1) = fmt_03d (j + 1)"
    by (simp add: part_path_def)
  then have "read_digits (fmt_03d (i + 1)) = read_digits (fmt_03d (j + 1))"
    by simp
  then show "i = j"
    by (simp add: read_fmt_03d)
qed

lemma split_parts_fail:
  assumes "\<forall>i\<in>set pre. ffmpeg env (part_cmd env p dpp i) \<noteq> LaunchFailed"
    and "ffmpeg env (part_cmd env p dpp k) = LaunchFailed"
  shows "\<exists>w'. split_parts env p dpp (pre @ k # post) w acc = (w', Inl OSError) \<and>
           calls w' = calls w @ map (\<lambda>i. Ffmpeg (part_cmd env p dpp i)) (pre @ [k]) \<and>
           (\<forall>q. q \<notin> part_path p ` set pre \<longrightarrow> disk w' q = disk w q)"
  using assms(1)
proof (induction pre arbitrary: w acc)
  case Nil
  then show ?case
    using assms(2) by (simp add: Let_def record_call_def)
next
  case (Cons i pre)
  let ?c = "part_cmd env p dpp i"
  let ?w1 = "record_call (Ffmpeg ?c) w"
  from Cons.prems obtain status written where
    run: "ffmpeg env ?c = Exited status written"
    by (cases "ffmpeg env ?c") auto
  let ?w2 = "case written of None \<Rightarrow> ?w1 | Some sz \<Rightarrow> ?w1\<lparr>disk := (disk ?w1)(cmd_output ?c \<mapsto> sz)\<rparr>"
  from Cons.prems have "\<forall>j\<in>set pre. ffmpeg env (part_cmd env p dpp j) \<noteq> LaunchFailed"
    by simp
  from Cons.IH [OF this, of ?w2 "acc @ [cmd_output ?c]"] obtain w' where
    w': "split_parts env p dpp (pre @ k # post) ?w2 (acc @ [cmd_output ?c]) = (w', Inl OSError)"
      "calls w' = calls ?w2 @ map (\<lambda>i. Ffmpeg (part_cmd env p dpp i)) (pre @ [k])"
      "\<forall>q. q \<notin> part_path p ` set pre \<longrightarrow> disk w' q = disk ?w2 q"
    by blast
  have step: "split_parts env p dpp ((i # pre) @ k # post) w acc = (w', Inl OSError)"
    using run w'(1) by (simp add: Let_def)
  have c2: "calls ?w2 = calls w @ [Ffmpeg ?c]"
    by (simp add: record_call_def split: option.splits)
  have d2: "disk ?w2 q = disk w q" if "q \<noteq> part_path p i" for q
    using that by (simp add: record_call_def cmd_output_part_cmd split: option.splits)
  have "calls w' = calls w @ map (\<lambda>i. Ffmpeg (part_cmd env p dpp i)) ((i # pre) @ [k])"
    using w'(2) c2 by simp
  moreover have "\<forall>q. q \<notin> part_path p ` set (i # pre) \<longrightarrow> disk w' q = disk w q"
    using w'(3) d2 by simp
  ultimately show ?case using step by blast
qed

lemma split_parts_all:
  assumes "\<forall>i\<in>set is. ffmpeg env (part_cmd env p dpp i) \<noteq> LaunchFailed"
  shows "\<exists>w'. split_parts env p dpp is w acc = (w', Inr (acc @ map (part_path p) is)) \<and>
           calls w' = calls w @ map (\<lambda>i. Ffmpeg (part_cmd env p dpp i)) is"
  using assms
proof (induction "is" arbitrary: w acc)
  case Nil
  then show ?case by simp
next
  case (Cons i rest)
  let ?c = "part_cmd env p dpp i"
  let ?w1 = "record_call (Ffmpeg ?c) w"
  from Cons.prems obtain status written where
    run: "ffmpeg env ?c = Exited status written"
    by (cases "ffmpeg env ?c") auto
  let ?w2 = "case written of None \<Rightarrow> ?w1 | Some sz \<Rightarrow> ?w1\<lparr>disk := (disk ?w1)(cmd_output ?c \<mapsto> sz)\<rparr>"
  from Cons.prems have "\<forall>j\<in>set rest. ffmpeg env (part_cmd env p dpp j) \<noteq> LaunchFailed"
    by simp
  from Cons.IH [OF this, of ?w2 "acc @ [cmd_output ?c]"] obtain w' where
    w': "split_parts env p dpp rest ?w2 (acc @ [cmd_output ?c]) =
           (w', Inr ((acc @ [cmd_output ?c]) @ map (part_path p) rest))"
      "calls w' = calls ?w2 @ map (\<lambda>i. Ffmpeg (part_cmd env p dpp i)) rest"
    by blast
  have c2: "calls ?w2 = calls w @ [Ffmpeg ?c]"
    by (simp add: record_call_def split: option.splits)
  have "split_parts env p dpp (i # rest) w acc = (w', Inr (acc @ map (part_path p) (i # rest)))"
    using run w'(1) by (simp add: Let_def cmd_output_part_cmd)
  moreover have "calls w' = calls w @ map (\<lambda>i. Ffmpeg (part_cmd env p dpp i)) (i # rest)"
    using w'(2) c2 by simp
  ultimately show ?case by blast
qed

lemma upt_split_at: "k < n \<Longrightarrow> [0..<n] = [0..<k] @ k # [Suc k..<n]"
proof -
  assume "k < n"
  then have "[0..<n] = [0..<k] @ [k..<n]"
    by (metis le_add_diff_inverse less_imp_le upt_add_eq_append zero_le)
  moreover from \<open>k < n\<close> have "[k..<n] = k # [Suc k..<n]"
    by (rule upt_conv_Cons)
  ultimately show ?thesis by simp
qed

text \<open>
  C3, as stated, fails for a stream-copy process that runs and fails: the exit status
  that \<^verbatim>\<open>proc.wait()\<close> returns is not read. Here every invocation ends with status 1 and
  writes no file, and \<^verbatim>\<open>split_video\<close> still returns the list of all three part paths.
\<close>

theorem split_video_failure_counterexample:
  "snd (split_video (example_env\<lparr>ffmpeg := \<lambda>_. Exited 1 None\<rparr>) ''/downloads/video.mp4''
          example_world) =
     Inr [''/downloads/video.part001.mp4'', ''/downloads/video.part002.mp4'',
          ''/downloads/video.part003.mp4'']"
proof -
  let ?env = "example_env\<lparr>ffmpeg := \<lambda>_. Exited 1 None\<rparr>"
  let ?P = "''/downloads/video.mp4''"
  have a: "probe ?env ?P = Inr 3000"
    by (simp add: example_env_def)
  have b: "disk example_world ?P = Some 5368709120"
    by (simp add: example_world_def)
  have p: "0 < parts_count 5368709120" by (simp add: example_parts_count)
  have d: "\<not> (\<exists>i<3. ffmpeg ?env (part_cmd ?env ?P (fdiv ?env 3000 3) i) = LaunchFailed)"
    by simp
  from split_video_result [OF a b p] d
  have "snd (split_video ?env ?P example_world) = Inr (map (part_path ?P) [0..<3])"
    by (simp add: example_parts_count)
  then show ?thesis
    by (simp only: example_part_paths)
qed

text \<open>
  C3, amended. When the probe step raises (the probe cannot be launched, or its output
  is not a number), \<^verbatim>\<open>split_video\<close> logs and raises that error, returns no part list,
  launches nothing and leaves the disk as it was; so it does when the size of the file
  cannot be read. When the launch of a per-part stream-copy invocation raises, the split
  is aborted there: the invocations launched are exactly those up to the first one that
  failed, no path other than the parts before it is written (no later part is produced),
  the error is logged and raised, and no part list is returned. When every launch
  succeeds, all invocations run in order and the paths of all parts are returned,
  whatever the exit statuses of the stream-copy processes were.
\<close>

theorem split_video_failure:
  "(probe env p = Inl e \<longrightarrow> split_video env p w = (record_call (LogError e) w, Inl e)) \<and>
   (probe env p = Inr total_duration \<and> disk w p = None \<longrightarrow>
      split_video env p w = (record_call (LogError OSError) w, Inl OSError)) \<and>
   (probe env p = Inr total_duration \<and> disk w p = Some file_size \<and>
    0 < parts_count file_size \<longrightarrow>
      snd (split_video env p w) =
        (if \<exists>i<parts_count file_size.
              ffmpeg env (part_cmd env p (fdiv env total_duration (parts_count file_size)) i) =
                LaunchFailed
         then Inl OSError
         else Inr (map (part_path p) [0..<parts_count file_size])) \<and>
      (\<forall>k<parts_count file_size.
          ffmpeg env (part_cmd env p (fdiv env total_duration (parts_count file_size)) k) =
            LaunchFailed \<and>
          (\<forall>i<k. ffmpeg env (part_cmd env p (fdiv env total_duration (parts_count file_size)) i) \<noteq>
                    LaunchFailed) \<longrightarrow>
          snd (split_video env p w) = Inl OSError \<and>
          calls (fst (split_video env p w)) =
            calls w @
            map (\<lambda>i. Ffmpeg (part_cmd env p (fdiv env total_duration (parts_count file_size)) i))
              [0..<Suc k] @
            [LogError OSError] \<and>
          (\<forall>q. q \<notin> part_path p ` {..<k} \<longrightarrow> disk (fst (split_video env p w)) q = disk w q) \<and>
          (\<forall>i\<ge>k. disk (fst (split_video env p w)) (part_path p i) = disk w (part_path p i))) \<and>
      ((\<forall>i<parts_count file_size.
           ffmpeg env (part_cmd env p (fdiv env total_duration (parts_count file_size)) i) \<noteq>
             LaunchFailed) \<longrightarrow>
          snd (split_video env p w) = Inr (map (part_path p) [0..<parts_count file_size]) \<and>
          calls (fst (split_video env p w)) =
            calls w @
            map (\<lambda>i. Ffmpeg (part_cmd env p (fdiv env total_duration (parts_count file_size)) i))
              [0..<parts_count file_size]))"
proof -
  let ?n = "parts_count file_size"
  let ?dpp = "fdiv env total_duration ?n"
  let ?failed = "\<lambda>i. ffmpeg env (part_cmd env p ?dpp i) = LaunchFailed"
  have probe_failed: "split_video env p w = (record_call (LogError e) w, Inl e)"
    if "probe env p = Inl e"
    using that by (simp add: split_video_def split_video_body_def)
  have missing: "split_video env p w = (record_call (LogError OSError) w, Inl OSError)"
    if "probe env p = Inr total_duration" "disk w p = None"
    using that by (simp add: split_video_def split_video_body_def)
  have main: "snd (split_video env p w) =
        (if \<exists>i<?n. ?failed i then Inl OSError else Inr (map (part_path p) [0..<?n])) \<and>
      (\<forall>k<?n. ?failed k \<and> (\<forall>i<k. \<not> ?failed i) \<longrightarrow>
          snd (split_video env p w) = Inl OSError \<and>
          calls (fst (split_video env p w)) =
            calls w @ map (\<lambda>i. Ffmpeg (part_cmd env p ?dpp i)) [0..<Suc k] @ [LogError OSError] \<and>
          (\<forall>q. q \<notin> part_path p ` {..<k} \<longrightarrow> disk (fst (split_video env p w)) q = disk w q) \<and>
          (\<forall>i\<ge>k. disk (fst (split_video env p w)) (part_path p i) = disk w (part_path p i))) \<and>
      ((\<forall>i<?n. \<not> ?failed i) \<longrightarrow>
          snd (split_video env p w) = Inr (map (part_path p) [0..<?n]) \<and>
          calls (fst (split_video env p w)) =
            calls w @ map (\<lambda>i. Ffmpeg (part_cmd env p ?dpp i)) [0..<?n])"
    if h: "probe env p = Inr total_duration" "disk w p = Some file_size" "0 < ?n"
  proof -
    have body: "split_video_body env p w = split_parts env p ?dpp [0..<?n] w []"
      using h by (simp add: split_video_body_def Let_def)
    have result: "snd (split_video env p w) =
        (if \<exists>i<?n. ?failed i then Inl OSError else Inr (map (part_path p) [0..<?n]))"
      using h by (rule split_video_result)
    have aborted: "snd (split_video env p w) = Inl OSError \<and>
          calls (fst (split_video env p w)) =
            calls w @ map (\<lambda>i. Ffmpeg (part_cmd env p ?dpp i)) [0..<Suc k] @ [LogError OSError] \<and>
          (\<forall>q. q \<notin> part_path p ` {..<k} \<longrightarrow> disk (fst (split_video env p w)) q = disk w q) \<and>
          (\<forall>i\<ge>k. disk (fst (split_video env p w)) (part_path p i) = disk w (part_path p i))"
      if k: "k < ?n" "?failed k" "\<forall>i<k. \<not> ?failed i" for k
    proof -
      from k(1) have u: "[0..<?n] = [0..<k] @ k # [Suc k..<?n]"
        by (rule upt_split_at)
      from k(3) have "\<forall>i\<in>set [0..<k]. ffmpeg env (part_cmd env p ?dpp i) \<noteq> LaunchFailed"
        by simp
      from split_parts_fail [OF this k(2), of "[Suc k..<?n]" w "[]"] obtain w' where
        w': "split_parts env p ?dpp ([0..<k] @ k # [Suc k..<?n]) w [] = (w', Inl OSError)"
          "calls w' = calls w @ map (\<lambda>i. Ffmpeg (part_cmd env p ?dpp i)) ([0..<k] @ [k])"
          "\<forall>q. q \<notin> part_path p ` set [0..<k] \<longrightarrow> disk w' q = disk w q"
        by blast
      from w'(1) have sv: "split_video env p w = (record_call (LogError OSError) w', Inl OSError)"
        unfolding split_video_def body u by simp
      have c: "calls (fst (split_video env p w)) =
            calls w @ map (\<lambda>i. Ffmpeg (part_cmd env p ?dpp i)) [0..<Suc k] @ [LogError OSError]"
        unfolding sv using w'(2) by (simp add: record_call_def)
      have s: "set [0..<k] = {..<k}" by auto
      from w'(3) have "\<forall>q. q \<notin> part_path p ` {..<k} \<longrightarrow> disk w' q = disk w q"
        unfolding s .
      then have d: "\<forall>q. q \<notin> part_path p ` {..<k} \<longrightarrow>
          disk (fst (split_video env p w)) q = disk w q"
        unfolding sv by (simp add: record_call_def)
      have "part_path p i \<notin> part_path p ` {..<k}" if "k \<le> i" for i
      proof
        assume "part_path p i \<in> part_path p ` {..<k}"
        then obtain j where "j < k" "part_path p i = part_path p j" by auto
        with part_path_inj [of p i j] that show False by simp
      qed
      with d have "\<forall>i\<ge>k. disk (fst (split_video env p w)) (part_path p i) = disk w (part_path p i)"
        by blast
      with sv c d show ?thesis by simp
    qed
    have complete: "snd (split_video env p w) = Inr (map (part_path p) [0..<?n]) \<and>
          calls (fst (split_video env p w)) =
            calls w @ map (\<lambda>i. Ffmpeg (part_cmd env p ?dpp i)) [0..<?n]"
      if "\<forall>i<?n. \<not> ?failed i"
    proof -
      from that have "\<forall>i\<in>set [0..<?n]. ffmpeg env (part_cmd env p ?dpp i) \<noteq> LaunchFailed"
        by simp
      from split_parts_all [OF this, of w "[]"] obtain w' where
        w': "split_parts env p ?dpp [0..<?n] w [] = (w', Inr ([] @ map (part_path p) [0..<?n]))"
          "calls w' = calls w @ map (\<lambda>i. Ffmpeg (part_cmd env p ?dpp i)) [0..<?n]"
        by blast
      from w'(1) have "split_video env p w = (w', Inr (map (part_path p) [0..<?n]))"
        unfolding split_video_def body by simp
      with w'(2) show ?thesis by simp
    qed
    from result aborted complete show ?thesis by blast
  qed
  from probe_failed missing main show ?thesis by blast
qed

text \<open>
  A probe whose output is not a number: nothing is launched. A second invocation that
  cannot be launched: two launches, then the logged error, and no third part on disk.
\<close>

theorem split_video_failure_witness:
  "split_video (example_env\<lparr>probe := \<lambda>_. Inl ValueError\<rparr>) ''/downloads/video.mp4''
      example_world =
     (\<lparr>disk = [''/downloads/video.mp4'' \<mapsto> 5368709120], calls = [LogError ValueError]\<rparr>,
      Inl ValueError) \<and>
   snd (split_video
          (example_env\<lparr>ffmpeg := \<lambda>c. if cmd_output c = ''/downloads/video.part002.mp4''
                                       then LaunchFailed else Exited 0 (Some 1789569707)\<rparr>)
          ''/downloads/video.mp4'' example_world) = Inl OSError \<and>
   calls (fst (split_video
          (example_env\<lparr>ffmpeg := \<lambda>c. if cmd_output c = ''/downloads/video.part002.mp4''
                                       then LaunchFailed else Exited 0 (Some 1789569707)\<rparr>)
          ''/downloads/video.mp4'' example_world)) =
     [Ffmpeg \<lparr>cmd_ss = 0, cmd_input = ''/downloads/video.mp4'', cmd_t = 1000,
              cmd_output = ''/downloads/video.part001.mp4''\<rparr>,
      Ffmpeg \<lparr>cmd_ss = 1000, cmd_input = ''/downloads/video.mp4'', cmd_t = 1000,
              cmd_output = ''/downloads/video.part002.mp4''\<rparr>,
      LogError OSError] \<and>
   disk (fst (split_video
          (example_env\<lparr>ffmpeg := \<lambda>c. if cmd_output c = ''/downloads/video.part002.mp4''
                                       then LaunchFailed else Exited 0 (Some 1789569707)\<rparr>)
          ''/downloads/video.mp4'' example_world)) ''/downloads/video.part003.mp4'' = None"
proof -
  let ?P = "''/downloads/video.mp4''"
  let ?env1 = "example_env\<lparr>probe := \<lambda>_. Inl ValueError\<rparr>"
  let ?env2 = "example_env\<lparr>ffmpeg := \<lambda>c. if cmd_output c = ''/downloads/video.part002.mp4''
                                       then LaunchFailed else Exited 0 (Some 1789569707)\<rparr>"
  have "probe ?env1 ?P = Inl ValueError" by simp
  with split_video_failure [of ?env1 ?P ValueError example_world]
  have "split_video ?env1 ?P example_world =
      (record_call (LogError ValueError) example_world, Inl ValueError)"
    by blast
  then have one: "split_video ?env1 ?P example_world =
     (\<lparr>disk = [?P \<mapsto> 5368709120], calls = [LogError ValueError]\<rparr>, Inl ValueError)"
    by (simp add: record_call_def example_world_def)
  have a: "probe ?env2 ?P = Inr 3000"
    by (simp add: example_env_def)
  have b: "disk example_world ?P = Some 5368709120"
    by (simp add: example_world_def)
  have n: "parts_count 5368709120 = 3" by (rule example_parts_count)
  have names: "part_path ?P 0 = ''/downloads/video.part001.mp4''"
    "part_path ?P (Suc 0) = ''/downloads/video.part002.mp4''"
    "part_path ?P 2 = ''/downloads/video.part003.mp4''"
    by code_simp+
  have dpp: "fdiv ?env2 3000 3 = 1000" "fmul ?env2 0 1000 = 0" "fmul ?env2 (Suc 0) 1000 = 1000"
    by (simp_all add: example_env_def)
  have f1: "ffmpeg ?env2 (part_cmd ?env2 ?P (fdiv ?env2 3000 3) (Suc 0)) = LaunchFailed"
    by (simp add: part_cmd_def names)
  have f0: "\<forall>i<Suc 0. ffmpeg ?env2 (part_cmd ?env2 ?P (fdiv ?env2 3000 3) i) \<noteq> LaunchFailed"
    by (simp add: part_cmd_def names)
  from split_video_failure [of ?env2 ?P _ example_world 3000 5368709120] a b
  have "\<forall>k<3.
          ffmpeg ?env2 (part_cmd ?env2 ?P (fdiv ?env2 3000 3) k) = LaunchFailed \<and>
          (\<forall>i<k. ffmpeg ?env2 (part_cmd ?env2 ?P (fdiv ?env2 3000 3) i) \<noteq> LaunchFailed) \<longrightarrow>
          snd (split_video ?env2 ?P example_world) = Inl OSError \<and>
          calls (fst (split_video ?env2 ?P example_world)) =
            calls example_world @
            map (\<lambda>i. Ffmpeg (part_cmd ?env2 ?P (fdiv ?env2 3000 3) i)) [0..<Suc k] @
            [LogError OSError] \<and>
          (\<forall>q. q \<notin> part_path ?P ` {..<k} \<longrightarrow>
               disk (fst (split_video ?env2 ?P example_world)) q = disk example_world q) \<and>
          (\<forall>i\<ge>k. disk (fst (split_video ?env2 ?P example_world)) (part_path ?P i) =
                  disk example_world (part_path ?P i))"
    unfolding n by simp
  moreover have "Suc 0 < 3" by simp
  ultimately have t:
      "snd (split_video ?env2 ?P example_world) = Inl OSError"
      "calls (fst (split_video ?env2 ?P example_world)) =
         calls example_world @
         map (\<lambda>i. Ffmpeg (part_cmd ?env2 ?P (fdiv ?env2 3000 3) i)) [0..<Suc (Suc 0)] @
         [LogError OSError]"
      "\<forall>i\<ge>Suc 0. disk (fst (split_video ?env2 ?P example_world)) (part_path ?P i) =
                  disk example_world (part_path ?P i)"
    using f1 f0 by blast+
  have u: "[0..<Suc (Suc 0)] = [0, Suc 0]" by (simp add: upt_rec)
  have two: "calls (fst (split_video ?env2 ?P example_world)) =
     [Ffmpeg \<lparr>cmd_ss = 0, cmd_input = ?P, cmd_t = 1000,
              cmd_output = ''/downloads/video.part001.mp4''\<rparr>,
      Ffmpeg \<lparr>cmd_ss = 1000, cmd_input = ?P, cmd_t = 1000,
              cmd_output = ''/downloads/video.part002.mp4''\<rparr>,
      LogError OSError]"
    unfolding t(2) u dpp(1)
    by (simp add: part_cmd_def names example_env_def example_world_def)
  from t(3) have "disk (fst (split_video ?env2 ?P example_world)) (part_path ?P 2) =
                  disk example_world (part_path ?P 2)"
    by simp
  then have three: "disk (fst (split_video ?env2 ?P example_world))
      ''/downloads/video.part003.mp4'' = None"
    unfolding names by (simp add: example_world_def)
  from one t(1) two three show ?thesis by simp
qed

subsection \<open>The split decision\<close>

text \<open>
  C6. \<^verbatim>\<open>handle_upload\<close> takes the split path exactly when the size of the downloaded
  file is strictly above the ceiling, and the direct path otherwise: a file of exactly
  the ceiling is uploaded directly, a file one byte larger is split. The ceiling is 4 GB
  (\<open>4 * 1024 ^ 3\<close>) when the elevated upload client is configured and 2 GB otherwise.
\<close>

theorem handle_upload_split_decision:
  assumes "files env = file_path # rest" and "disk w file_path = Some file_size"
  shows "handle_upload env w =
       (if file_size > (if user_client env then 4 * 1024 ^ 3 else 2 * 1024 ^ 3)
        then split_and_upload env file_path w
        else direct_upload env file_path w) \<and>
     split_size (user_client env) = (if user_client env then 4 * 1024 ^ 3 else 2 * 1024 ^ 3) \<and>
     (file_size = split_size (user_client env) \<longrightarrow>
        handle_upload env w = direct_upload env file_path w) \<and>
     (file_size = split_size (user_client env) + 1 \<longrightarrow>
        handle_upload env w = split_and_upload env file_path w)"
  using assms
  by (simp add: handle_upload_def split_size_def VIP_SPLIT_SIZE_def DEFAULT_SPLIT_SIZE_def)

lemma example_direct:
  "direct_upload example_env ''/downloads/video.mp4''
     (example_world\<lparr>disk := [''/downloads/video.mp4'' \<mapsto> 2147483648]\<rparr>) =
   (\<lparr>disk = Map.empty,
     calls = [SendVideo ''/downloads/video.mp4'', OsRemove ''/downloads/video.mp4'']\<rparr>, Inr ())"
  by (simp add: direct_upload_def upload_file_def safe_remove_def record_call_def
      example_env_def example_world_def Let_def)

text \<open>
  Files of exactly the ceiling and of one byte more, with the default and with the
  elevated client. The direct upload of the 2 GB file sends it and removes it.
\<close>

theorem handle_upload_split_decision_witness:
  "handle_upload example_env
     (example_world\<lparr>disk := [''/downloads/video.mp4'' \<mapsto> 2147483648]\<rparr>) =
   (\<lparr>disk = Map.empty,
     calls = [SendVideo ''/downloads/video.mp4'', OsRemove ''/downloads/video.mp4'']\<rparr>, Inr ()) \<and>
   handle_upload example_env
     (example_world\<lparr>disk := [''/downloads/video.mp4'' \<mapsto> 2147483649]\<rparr>) =
   split_and_upload example_env ''/downloads/video.mp4''
     (example_world\<lparr>disk := [''/downloads/video.mp4'' \<mapsto> 2147483649]\<rparr>) \<and>
   handle_upload (example_env\<lparr>user_client := True\<rparr>)
     (example_world\<lparr>disk := [''/downloads/video.mp4'' \<mapsto> 4294967296]\<rparr>) =
   direct_upload (example_env\<lparr>user_client := True\<rparr>) ''/downloads/video.mp4''
     (example_world\<lparr>disk := [''/downloads/video.mp4'' \<mapsto> 4294967296]\<rparr>) \<and>
   handle_upload (example_env\<lparr>user_client := True\<rparr>)
     (example_world\<lparr>disk := [''/downloads/video.mp4'' \<mapsto> 4294967297]\<rparr>) =
   split_and_upload (example_env\<lparr>user_client := True\<rparr>) ''/downloads/video.mp4''
     (example_world\<lparr>disk := [''/downloads/video.mp4'' \<mapsto> 4294967297]\<rparr>)"
proof -
  let ?P = "''/downloads/video.mp4''"
  let ?vip = "example_env\<lparr>user_client := True\<rparr>"
  have f: "files example_env = [?P]" "files ?vip = [?P]"
    by (simp_all add: example_env_def)
  have u: "user_client example_env = False" "user_client ?vip = True"
    by (simp_all add: example_env_def)
  have s: "split_size False = 2147483648" "split_size True = 4294967296"
    by (simp_all add: split_size_def VIP_SPLIT_SIZE_def DEFAULT_SPLIT_SIZE_def)
  have d: "disk (example_world\<lparr>disk := [?P \<mapsto> n]\<rparr>) ?P = Some n" for n
    by simp
  have a: "handle_upload example_env (example_world\<lparr>disk := [?P \<mapsto> 2147483648]\<rparr>) =
      direct_upload example_env ?P (example_world\<lparr>disk := [?P \<mapsto> 2147483648]\<rparr>)"
    using handle_upload_split_decision [OF f(1) d, of 2147483648] u s by simp
  have b: "handle_upload example_env (example_world\<lparr>disk := [?P \<mapsto> 2147483649]\<rparr>) =
      split_and_upload example_env ?P (example_world\<lparr>disk := [?P \<mapsto> 2147483649]\<rparr>)"
    using handle_upload_split_decision [OF f(1) d, of 2147483649] u s by simp
  have c: "handle_upload ?vip (example_world\<lparr>disk := [?P \<mapsto> 4294967296]\<rparr>) =
      direct_upload ?vip ?P (example_world\<lparr>disk := [?P \<mapsto> 4294967296]\<rparr>)"
    using handle_upload_split_decision [OF f(2) d, of 4294967296] u s by simp
  have e: "handle_upload ?vip (example_world\<lparr>disk := [?P \<mapsto> 4294967297]\<rparr>) =
      split_and_upload ?vip ?P (example_world\<lparr>disk := [?P \<mapsto> 4294967297]\<rparr>)"
    using handle_upload_split_decision [OF f(2) d, of 4294967297] u s by simp
  from a b c e show ?thesis
    by (simp only: example_direct)
qed

subsection \<open>Removing the parts\<close>

text \<open>
  Once \<^verbatim>\<open>split_video\<close> has returned its list, the \<^verbatim>\<open>finally\<close> block of
  \<^verbatim>\<open>split_and_upload\<close> removes every part, also those the upload loop did not reach, and
  the result is that of the upload loop.
\<close>

lemma disk_safe_remove: "disk (safe_remove q w) = (disk w)(q := None)"
  by (auto simp: safe_remove_def record_call_def Let_def split: option.splits)

lemma disk_remove_each:
  "disk (remove_each ps w) x = (if x \<in> set ps then None else disk w x)"
  by (induction ps arbitrary: w) (simp_all add: disk_safe_remove)

lemma split_and_upload_after_split:
  assumes "split_video env p w = (w1, Inr parts)"
  shows "snd (split_and_upload env p w) = snd (upload_each env parts w1) \<and>
         (\<forall>q\<in>set parts. disk (fst (split_and_upload env p w)) q = None)"
  using assms
  by (simp add: split_and_upload_def disk_remove_each split: prod.splits)

text \<open>
  C2. The claim holds after a split that returned, and fails after a split that raised.
  Here the stream-copy tool writes the first part and cannot be launched for the second:
  \<^verbatim>\<open>split_video\<close> raises, the \<^verbatim>\<open>finally\<close> block of \<^verbatim>\<open>split_and_upload\<close> reads the
  unbound name \<^verbatim>\<open>split_files\<close> and raises \<^verbatim>\<open>UnboundLocalError\<close> in place of the first
  error, and the first part is still on disk, also after the final \<^verbatim>\<open>cleanup\<close>, which
  removes the downloaded file only.
\<close>

theorem split_and_upload_leaves_parts:
  "snd (handle_upload
          (example_env\<lparr>ffmpeg := \<lambda>c. if cmd_output c = ''/downloads/video.part002.mp4''
                                       then LaunchFailed else Exited 0 (Some 1789569707)\<rparr>)
          example_world) = Inl UnboundLocalError \<and>
   disk (fst (handle_upload
          (example_env\<lparr>ffmpeg := \<lambda>c. if cmd_output c = ''/downloads/video.part002.mp4''
                                       then LaunchFailed else Exited 0 (Some 1789569707)\<rparr>)
          example_world)) ''/downloads/video.part001.mp4'' = Some 1789569707 \<and>
   disk (fst (cleanup
          (example_env\<lparr>ffmpeg := \<lambda>c. if cmd_output c = ''/downloads/video.part002.mp4''
                                       then LaunchFailed else Exited 0 (Some 1789569707)\<rparr>)
          (fst (handle_upload
            (example_env\<lparr>ffmpeg := \<lambda>c. if cmd_output c = ''/downloads/video.part002.mp4''
                                         then LaunchFailed else Exited 0 (Some 1789569707)\<rparr>)
            example_world)))) ''/downloads/video.part001.mp4'' = Some 1789569707"
proof -
  let ?P = "''/downloads/video.mp4''"
  let ?env = "example_env\<lparr>ffmpeg := \<lambda>c. if cmd_output c = ''/downloads/video.part002.mp4''
                                       then LaunchFailed else Exited 0 (Some 1789569707)\<rparr>"
  have names: "part_path ?P 0 = ''/downloads/video.part001.mp4''"
    "part_path ?P (Suc 0) = ''/downloads/video.part002.mp4''"
    by code_simp+
  have u: "[0..<3] = [0, Suc 0, 2]" by (simp add: upt_rec)
  have loop: "split_parts ?env ?P 1000 [0, Suc 0, 2] example_world [] =
      (\<lparr>disk = [?P \<mapsto> 5368709120, ''/downloads/video.part001.mp4'' \<mapsto> 1789569707],
        calls = [Ffmpeg (part_cmd ?env ?P 1000 0), Ffmpeg (part_cmd ?env ?P 1000 (Suc 0))]\<rparr>,
       Inl OSError)"
    by (simp add: Let_def cmd_output_part_cmd names record_call_def example_world_def)
  have body: "split_video_body ?env ?P example_world =
      (\<lparr>disk = [?P \<mapsto> 5368709120, ''/downloads/video.part001.mp4'' \<mapsto> 1789569707],
        calls = [Ffmpeg (part_cmd ?env ?P 1000 0), Ffmpeg (part_cmd ?env ?P 1000 (Suc 0))]\<rparr>,
       Inl OSError)"
  proof -
    have "probe ?env ?P = Inr 3000" "fdiv ?env 3000 3 = 1000"
      by (simp_all add: example_env_def)
    moreover have "disk example_world ?P = Some 5368709120"
      by (simp add: example_world_def)
    ultimately show ?thesis
      by (simp add: split_video_body_def example_parts_count u loop del: split_parts.simps)
  qed
  have sau: "split_and_upload ?env ?P example_world =
      (\<lparr>disk = [?P \<mapsto> 5368709120, ''/downloads/video.part001.mp4'' \<mapsto> 1789569707],
        calls = [Ffmpeg (part_cmd ?env ?P 1000 0), Ffmpeg (part_cmd ?env ?P 1000 (Suc 0)),
                 LogError OSError]\<rparr>,
       Inl UnboundLocalError)"
    by (simp add: split_and_upload_def split_video_def body record_call_def)
  have "files ?env = [?P]" "user_client ?env = False"
    by (simp_all add: example_env_def)
  moreover have "disk example_world ?P = Some 5368709120"
    by (simp add: example_world_def)
  ultimately have hu: "handle_upload ?env example_world = split_and_upload ?env ?P example_world"
    by (simp add: handle_upload_def split_size_def DEFAULT_SPLIT_SIZE_def)
  have ok: "delete_status_ok ?env" "delete_original_ok ?env" "files ?env = [?P]"
    by (simp_all add: example_env_def)
  have cl: "disk (fst (cleanup ?env (fst (handle_upload ?env example_world))))
              ''/downloads/video.part001.mp4'' = Some 1789569707"
    unfolding hu sau
    by (simp add: cleanup_def cleanup_body_def record_call_def ok Let_def)
  from hu sau cl show ?thesis by simp
qed

subsection \<open>Final cleanup\<close>

text \<open>
  C1, as stated, fails: the three actions stand in one \<^verbatim>\<open>try\<close> block, so the first
  failure skips the actions after it. Here deleting the status message fails; the
  request message is not deleted and the downloaded file stays on disk.
\<close>

theorem cleanup_counterexample:
  "cleanup (example_env\<lparr>delete_status_ok := False\<rparr>) example_world =
     (\<lparr>disk = [''/downloads/video.mp4'' \<mapsto> 5368709120],
       calls = [DeleteStatus, LogError ExternalError]\<rparr>, Inr ())"
  by (simp add: cleanup_def cleanup_body_def record_call_def example_env_def example_world_def)

text \<open>
  C1, amended. \<^verbatim>\<open>cleanup\<close> never raises to its caller. It attempts its three actions in
  order (delete the status message, delete the request message, remove the downloaded
  file if it is on disk) and stops at the first one that fails, which it logs: an action
  is attempted exactly when every action before it succeeded.
\<close>

theorem cleanup_spec:
  "snd (cleanup env w) = Inr () \<and>
   (\<not> delete_status_ok env \<longrightarrow>
      calls (fst (cleanup env w)) = calls w @ [DeleteStatus, LogError ExternalError] \<and>
      disk (fst (cleanup env w)) = disk w) \<and>
   (delete_status_ok env \<and> \<not> delete_original_ok env \<longrightarrow>
      calls (fst (cleanup env w)) =
        calls w @ [DeleteStatus, DeleteOriginal, LogError ExternalError] \<and>
      disk (fst (cleanup env w)) = disk w) \<and>
   (delete_status_ok env \<and> delete_original_ok env \<and> files env = [] \<longrightarrow>
      calls (fst (cleanup env w)) =
        calls w @ [DeleteStatus, DeleteOriginal, LogError IndexError] \<and>
      disk (fst (cleanup env w)) = disk w) \<and>
   (delete_status_ok env \<and> delete_original_ok env \<and> files env = file_path # rest \<longrightarrow>
      calls (fst (cleanup env w)) =
        calls w @ [DeleteStatus, DeleteOriginal] @
        (if disk w file_path = None then [] else [OsRemove file_path]) \<and>
      disk (fst (cleanup env w)) = (disk w)(file_path := None))"
proof -
  have raised: "snd (cleanup env w) = Inr ()"
    by (simp add: cleanup_def split: prod.splits sum.splits)
  have one: "calls (fst (cleanup env w)) = calls w @ [DeleteStatus, LogError ExternalError] \<and>
      disk (fst (cleanup env w)) = disk w" if "\<not> delete_status_ok env"
    using that by (simp add: cleanup_def cleanup_body_def record_call_def Let_def)
  have two: "calls (fst (cleanup env w)) =
        calls w @ [DeleteStatus, DeleteOriginal, LogError ExternalError] \<and>
      disk (fst (cleanup env w)) = disk w"
    if "delete_status_ok env" "\<not> delete_original_ok env"
    using that by (simp add: cleanup_def cleanup_body_def record_call_def Let_def)
  have three: "calls (fst (cleanup env w)) =
        calls w @ [DeleteStatus, DeleteOriginal, LogError IndexError] \<and>
      disk (fst (cleanup env w)) = disk w"
    if "delete_status_ok env" "delete_original_ok env" "files env = []"
    using that by (simp add: cleanup_def cleanup_body_def record_call_def Let_def)
  have four: "calls (fst (cleanup env w)) =
        calls w @ [DeleteStatus, DeleteOriginal] @
        (if disk w file_path = None then [] else [OsRemove file_path]) \<and>
      disk (fst (cleanup env w)) = (disk w)(file_path := None)"
    if "delete_status_ok env" "delete_original_ok env" "files env = file_path # rest"
    using that
    by (auto simp: cleanup_def cleanup_body_def record_call_def Let_def split: option.splits)
  from raised one two three four show ?thesis by blast
qed

text \<open>
  All three actions when nothing fails; no removal when deleting the request message
  fails; a logged \<^verbatim>\<open>IndexError\<close> when the download has no file.
\<close>

theorem cleanup_spec_witness:
  "cleanup example_env example_world =
     (\<lparr>disk = Map.empty,
       calls = [DeleteStatus, DeleteOriginal, OsRemove ''/downloads/video.mp4'']\<rparr>, Inr ()) \<and>
   cleanup (example_env\<lparr>delete_original_ok := False\<rparr>) example_world =
     (\<lparr>disk = [''/downloads/video.mp4'' \<mapsto> 5368709120],
       calls = [DeleteStatus, DeleteOriginal, LogError ExternalError]\<rparr>, Inr ()) \<and>
   cleanup (example_env\<lparr>files := []\<rparr>) example_world =
     (\<lparr>disk = [''/downloads/video.mp4'' \<mapsto> 5368709120],
       calls = [DeleteStatus, DeleteOriginal, LogError IndexError]\<rparr>, Inr ())"
proof -
  let ?P = "''/downloads/video.mp4''"
  have f: "delete_status_ok example_env \<and> delete_original_ok example_env \<and>
           files example_env = ?P # []"
    by (simp add: example_env_def)
  have w: "calls example_world = []" "disk example_world = [?P \<mapsto> 5368709120]"
    by (simp_all add: example_world_def)
  from cleanup_spec [of example_env example_world ?P "[]"] f
  have "snd (cleanup example_env example_world) = Inr () \<and>
        calls (fst (cleanup example_env example_world)) =
          [DeleteStatus, DeleteOriginal, OsRemove ?P] \<and>
        disk (fst (cleanup example_env example_world)) = Map.empty"
    by (simp add: w)
  then have a: "cleanup example_env example_world =
     (\<lparr>disk = Map.empty, calls = [DeleteStatus, DeleteOriginal, OsRemove ?P]\<rparr>, Inr ())"
    by (cases "cleanup example_env example_world") auto
  let ?e2 = "example_env\<lparr>delete_original_ok := False\<rparr>"
  have "delete_status_ok ?e2 \<and> \<not> delete_original_ok ?e2"
    by (simp add: example_env_def)
  with cleanup_spec [of ?e2 example_world ?P "[]"]
  have "snd (cleanup ?e2 example_world) = Inr () \<and>
        calls (fst (cleanup ?e2 example_world)) =
          [DeleteStatus, DeleteOriginal, LogError ExternalError] \<and>
        disk (fst (cleanup ?e2 example_world)) = [?P \<mapsto> 5368709120]"
    by (simp add: w)
  then have b: "cleanup ?e2 example_world =
     (\<lparr>disk = [?P \<mapsto> 5368709120],
       calls = [DeleteStatus, DeleteOriginal, LogError ExternalError]\<rparr>, Inr ())"
    by (cases "cleanup ?e2 example_world") auto
  let ?e3 = "example_env\<lparr>files := []\<rparr>"
  have "delete_status_ok ?e3 \<and> delete_original_ok ?e3 \<and> files ?e3 = []"
    by (simp add: example_env_def)
  with cleanup_spec [of ?e3 example_world ?P "[]"]
  have "snd (cleanup ?e3 example_world) = Inr () \<and>
        calls (fst (cleanup ?e3 example_world)) =
          [DeleteStatus, DeleteOriginal, LogError IndexError] \<and>
        disk (fst (cleanup ?e3 example_world)) = [?P \<mapsto> 5368709120]"
    by (simp add: w)
  then have c: "cleanup ?e3 example_world =
     (\<lparr>disk = [?P \<mapsto> 5368709120],
       calls = [DeleteStatus, DeleteOriginal, LogError IndexError]\<rparr>, Inr ())"
    by (cases "cleanup ?e3 example_world") auto
  from a b c show ?thesis by simp
qed

end
